theory Spec2Isabelle
  imports Main "HOL-Library.Word" "HOL-Library.AList" "HOL-Library.Sublist"
begin

section \<open>Bytes, strings and the output sink\<close>

text \<open>
  A \<^verbatim>\<open>Uint8Array\<close> is a list of bytes; a byte is a \<^typ>\<open>char\<close>, which in HOL is
  exactly an 8-bit value, so the tags of the wire format can be written as string
  literals. \<^verbatim>\<open>TextDecoder.decode\<close> is the identity on such lists: this is exact for
  ASCII input, which is what tags, base64 text, digits and command echoes are. A byte
  above \<^verbatim>\<open>0x7F\<close>, which the decoder combines with its neighbours into one character
  (white space such as \<^verbatim>\<open>U+00A0\<close> among them) or replaces, is outside the model.
  \<^verbatim>\<open>Date.now()\<close> is an argument of the operations that read the clock.
\<close>

type_synonym bytes = "char list"

type_synonym f32 = "32 word"

definition code :: "char \<Rightarrow> nat" where
  "code c = of_char c"

definition LF :: char where
  "LF = CHR 0x0A"

definition CR :: char where
  "CR = CHR 0x0D"

definition NUL :: char where
  "NUL = CHR 0x00"

definition isNewline :: "char \<Rightarrow> bool" where
  "isNewline c = (c = LF \<or> c = CR)"

text \<open>\<^verbatim>\<open>String.prototype.trim\<close> on ASCII text: tab, LF, VT, FF, CR and space.\<close>

definition isWhite :: "char \<Rightarrow> bool" where
  "isWhite c = (code c = 9 \<or> code c = 10 \<or> code c = 11 \<or> code c = 12 \<or> code c = 13 \<or> code c = 32)"

definition trim :: "string \<Rightarrow> string" where
  "trim s = rev (dropWhile isWhite (rev (dropWhile isWhite s)))"

text \<open>\<^verbatim>\<open>.replace(/\0/g, '')\<close>\<close>

definition removeNul :: "string \<Rightarrow> string" where
  "removeNul s = filter (\<lambda>c. c \<noteq> NUL) s"

text \<open>\<^verbatim>\<open>xs.slice(a, b)\<close> for \<open>0 \<le> a\<close>: both ends are clamped to the length.\<close>

definition slice :: "nat \<Rightarrow> nat \<Rightarrow> 'a list \<Rightarrow> 'a list" where
  "slice a b xs = take (b - a) (drop a xs)"

text \<open>\<^verbatim>\<open>new TextDecoder().decode(data.slice(0, 4)).replace(/\0/g, '').trim()\<close>\<close>

definition identifierOf :: "bytes \<Rightarrow> string" where
  "identifierOf data = trim (removeNul (slice 0 4 data))"

text \<open>\<^verbatim>\<open>s.includes(t)\<close>\<close>

fun includesStr :: "string \<Rightarrow> string \<Rightarrow> bool" where
  "includesStr [] t = (t = [])"
| "includesStr (c # cs) t = (take (length t) (c # cs) = t \<or> includesStr cs t)"

text \<open>\<^verbatim>\<open>s.split(sep)\<close> for a one-character separator.\<close>

fun splitOn :: "char \<Rightarrow> string \<Rightarrow> string list" where
  "splitOn sep [] = [[]]"
| "splitOn sep (c # cs) =
     (case splitOn sep cs of
        [] \<Rightarrow> (if c = sep then [[], []] else [[c]])
      | w # ws \<Rightarrow> (if c = sep then [] # w # ws else (c # w) # ws))"

text \<open>
  \<^verbatim>\<open>DataView.getUint32(off, true)\<close>, \<^verbatim>\<open>getInt32(off, true)\<close> and
  \<^verbatim>\<open>getFloat32(off, true)\<close>: four bytes, little endian. A float is carried as its
  IEEE-754 bit pattern. Every call in the source is guarded by a length check, so the
  reads are in range.
\<close>

definition getUint32 :: "bytes \<Rightarrow> nat \<Rightarrow> nat" where
  "getUint32 data off =
     code (data ! off) + 256 * code (data ! (off + 1)) +
     65536 * code (data ! (off + 2)) + 16777216 * code (data ! (off + 3))"

definition getFloat32 :: "bytes \<Rightarrow> nat \<Rightarrow> f32" where
  "getFloat32 data off = word_of_nat (getUint32 data off)"

definition getInt32 :: "bytes \<Rightarrow> nat \<Rightarrow> int" where
  "getInt32 data off = sint (word_of_nat (getUint32 data off) :: 32 word)"

text \<open>The second argument of \<^verbatim>\<open>logToTerminal\<close>.\<close>

datatype severity = Info | Command | Response | Error | Warning

text \<open>
  The messages handed to \<^verbatim>\<open>logToTerminal\<close>, one constructor for each message
  template of the source, holding the values the template interpolates, grouped by the
  file that logs them (telemetry decoder, image reassembler, retransmission coordinator).
  Number formatting (\<^verbatim>\<open>toFixed\<close>) belongs to the terminal and is not part of the
  message.
\<close>

datatype telemetryMessage =
    InvalidPacketSize string nat
  | SensorReading string f32 f32 f32
  | BmeReading f32 f32 f32
  | IncompletePoll nat nat
  | PollHeader
  | PollSensor nat f32
  | ObcValue string f32
  | ObcListingHeader
  | ObcListingLine string
  | ObcNoFiles
  | ObcProcessHeader
  | ObcProcess nat string
  | AdcsHeader
  | AdcsValue nat f32
  | EpsHeader
  | EpsErrorCode int
  | EpsChannel nat bool
  | EpsBattery f32
  | SolarHeader
  | SolarPanel nat f32 f32
  | SolarTotal "(f32 \<times> f32) list"
  | Hostname string
  | RetransmittedData string
  | EmptyRetransmit

datatype imageMessage =
    NotSendRetx
  | PlainResponse string
  | PacketTooShort
  | EmptyChunkData
  | StartingReception string nat
  | Progress string nat nat
  | PacketError
  | ExpectingImage string
  | MissingData string
  | MissingChunk nat string
  | InvalidBase64 string
  | NoGzipMagic
  | ImageCompleted string
  | CleanupCompleted string
  | DecompressFailed
  | DecodeFailed string
  | UnhandledRejection
  | CompletionError

datatype retransmitMessage =
    NoReception string
  | MissingPackets nat string "nat list" bool
  | NotConnected
  | NoMissingPackets string
  | MaxAttemptsReached string
  | FilenameTooLong nat
  | RequestingPackets nat nat
  | CommandTooLong nat nat
  | CannotFit
  | RetransmitBatch "(nat \<times> nat) option" nat nat
  | RequestComplete nat
  | RetransmissionError
  | ImageTimeout string nat nat nat
  | TimeoutMissing "nat list" "nat option"
  | ManualRetransmit string "nat list"

text \<open>
  What the core hands to its collaborators: a terminal line, a console line, a DOM field
  of the telemetry display, the orientation sink, a line written to the transport, the
  download links of a completed image (identifier, compressed bytes, decompressed
  bytes when there are any), and the start of a gzip decompression (identifier,
  compressed bytes): the promise \<^verbatim>\<open>arrayBuffer()\<close> returns, with the \<^verbatim>\<open>then\<close> callback
  of \<^verbatim>\<open>completeImageReception\<close> attached.
\<close>

datatype event =
    Log severity telemetryMessage
  | ImageLog severity imageMessage
  | RetransmitLog severity retransmitMessage
  | ConsoleWarnOverflow
  | ConsoleDebugUnknown string
  | Display string f32
  | Orientation f32 f32 f32
  | Write string
  | Download string bytes "bytes option"
  | Decompress string bytes

section \<open>Telemetry decoder (scripts/telemetry.js)\<close>

text \<open>The globals of \<^verbatim>\<open>main.js\<close> that the decoder accumulates into.\<close>

record telemetry =
  pollBuffer :: bytes
  obclDataArray :: "string list"

definition unpackSensorData :: "string \<Rightarrow> bytes \<Rightarrow> event list" where
  "unpackSensorData identifier data =
     (if length data < 16 then [Log Warning (InvalidPacketSize identifier (length data))]
      else [Log Response (SensorReading identifier
              (getFloat32 data 4) (getFloat32 data 8) (getFloat32 data 12))])"

definition unpackBMEData :: "bytes \<Rightarrow> event list" where
  "unpackBMEData data =
     (if length data < 16 then [Log Warning (InvalidPacketSize ''BME'' (length data))]
      else [Log Response (BmeReading
              (getFloat32 data 4) (getFloat32 data 8) (getFloat32 data 12)),
            Display ''temperature'' (getFloat32 data 4)])"

text \<open>
  \<^verbatim>\<open>unpackPollData\<close>: the payload is appended to the global poll buffer; once the
  buffer holds 64 bytes its first 16 floats are logged and the buffer is cleared.
\<close>

definition unpackPollData :: "telemetry \<Rightarrow> bytes \<Rightarrow> telemetry \<times> event list" where
  "unpackPollData st data =
     (if length data < 8 then (st, [Log Warning (InvalidPacketSize ''POLL'' (length data))])
      else
        let payloadLength = getUint32 data 4 in
        if length data < 8 + payloadLength
        then (st, [Log Warning (IncompletePoll (8 + payloadLength) (length data))])
        else
          let newBuffer = pollBuffer st @ slice 8 (8 + payloadLength) data in
          if length newBuffer \<ge> 64
          then (st\<lparr>pollBuffer := []\<rparr>,
                Log Response PollHeader #
                map (\<lambda>i. Log Response (PollSensor (i + 1) (getFloat32 newBuffer (i * 4)))) [0..<16])
          else (st\<lparr>pollBuffer := newBuffer\<rparr>, []))"

definition unpackOBCSingleValue :: "string \<Rightarrow> bytes \<Rightarrow> event list" where
  "unpackOBCSingleValue identifier data =
     (if length data < 8 then [Log Warning (InvalidPacketSize identifier (length data))]
      else
        let v = getFloat32 data 4 in
        Log Response (ObcValue identifier v) #
        (if identifier = ''OBCR'' then [Display ''ramUsage'' v]
         else if identifier = ''OBCD'' then [Display ''diskUsage'' v]
         else []))"

definition unpackOBCFileListing :: "bytes \<Rightarrow> event list" where
  "unpackOBCFileListing data =
     (if length data < 234 then [Log Warning (InvalidPacketSize ''OBCL'' (length data))]
      else
        let fileData = trim (removeNul (slice 4 234 data)) in
        if fileData \<noteq> [] \<and> take 3 fileData \<noteq> ''DNE''
        then Log Response ObcListingHeader #
             map (\<lambda>l. Log Response (ObcListingLine (trim l)))
               (filter (\<lambda>l. trim l \<noteq> []) (splitOn LF fileData))
        else [Log Response ObcNoFiles])"

definition unpackOBCProcesses :: "telemetry \<Rightarrow> bytes \<Rightarrow> telemetry \<times> event list" where
  "unpackOBCProcesses st data =
     (if length data < 234 then (st, [Log Warning (InvalidPacketSize ''OBCP'' (length data))])
      else
        let processData = trim (removeNul (slice 4 234 data));
            arr = obclDataArray st @ [processData]
        in
        if includesStr processData ''END'' \<or> processData = []
        then
          let finalData = concat arr;
              processes = filter (\<lambda>p. trim p \<noteq> []) (splitOn (CHR '','') finalData)
          in (st\<lparr>obclDataArray := []\<rparr>,
              Log Response ObcProcessHeader #
              map (\<lambda>(i, p). Log Response (ObcProcess (i + 1) (trim p)))
                (filter (\<lambda>(i, p). trim p \<noteq> [] \<and> \<not> includesStr p ''END'')
                   (zip [0..<length processes] processes)))
        else (st\<lparr>obclDataArray := arr\<rparr>, []))"

definition unpackADCSData :: "bytes \<Rightarrow> event list" where
  "unpackADCSData data =
     (if length data < 32 then [Log Warning (InvalidPacketSize ''ADCS'' (length data))]
      else
        let orientationValues = map (\<lambda>i. getFloat32 data (4 + i * 4)) [0..<7] in
        Log Response AdcsHeader #
        map (\<lambda>i. Log Response (AdcsValue (i + 1) (orientationValues ! i))) [0..<7] @
        [Orientation (orientationValues ! 0) (orientationValues ! 1) (orientationValues ! 2)])"

definition unpackEPSStatus :: "bytes \<Rightarrow> event list" where
  "unpackEPSStatus data =
     (if length data < 28 then [Log Warning (InvalidPacketSize ''EPS'' (length data))]
      else
        [Log Response EpsHeader,
         Log Response (EpsErrorCode (getInt32 data 4)),
         Log Response (EpsChannel 1 (getInt32 data 8 \<noteq> 0)),
         Log Response (EpsChannel 2 (getInt32 data 12 \<noteq> 0)),
         Log Response (EpsChannel 3 (getInt32 data 16 \<noteq> 0)),
         Log Response (EpsChannel 4 (getInt32 data 20 \<noteq> 0)),
         Log Response (EpsBattery (getFloat32 data 24)),
         Display ''batteryVoltage'' (getFloat32 data 24)])"

definition unpackSolarData :: "bytes \<Rightarrow> event list" where
  "unpackSolarData data =
     (if length data < 36 then [Log Warning (InvalidPacketSize ''SOLR'' (length data))]
      else
        let panels = map (\<lambda>i. (getFloat32 data (4 + i * 8), getFloat32 data (8 + i * 8))) [0..<4] in
        Log Response SolarHeader #
        map (\<lambda>i. Log Response (SolarPanel i (fst (panels ! i)) (snd (panels ! i)))) [0..<4] @
        [Log Response (SolarTotal panels)])"

definition unpackHostname :: "bytes \<Rightarrow> event list" where
  "unpackHostname data =
     (if length data < 15 then [Log Warning (InvalidPacketSize ''HOST'' (length data))]
      else [Log Response (Hostname (trim (removeNul (slice 4 15 data))))])"

definition unpackRetransmitData :: "bytes \<Rightarrow> event list" where
  "unpackRetransmitData data =
     (let retxData = trim (removeNul (drop 4 data)) in
      if retxData \<noteq> [] then [Log Response (RetransmittedData retxData)]
      else [Log Info EmptyRetransmit])"

text \<open>
  \<^verbatim>\<open>unpackCommand\<close>: the dispatcher. Its \<^verbatim>\<open>try\<close> block guards calls none of
  which throws on a byte array, so the \<^verbatim>\<open>catch\<close> branch has no counterpart here.
\<close>

definition unpackCommand :: "telemetry \<Rightarrow> bytes \<Rightarrow> telemetry \<times> event list" where
  "unpackCommand st data =
     (if length data < 4 then (st, [])
      else
        let identifier = identifierOf data in
        if identifier \<in> set [''GYRO'', ''ACCL'', ''MAGN'', ''GRAV'', ''EULR'']
        then (st, unpackSensorData identifier data)
        else if identifier = ''BMED'' then (st, unpackBMEData data)
        else if identifier = ''POLL'' then unpackPollData st data
        else if identifier \<in> set [''OBCR'', ''OBCD'', ''OBCC'']
        then (st, unpackOBCSingleValue identifier data)
        else if identifier = ''OBCL'' then (st, unpackOBCFileListing data)
        else if identifier = ''OBCP'' then unpackOBCProcesses st data
        else if identifier = ''ADCS'' then (st, unpackADCSData data)
        else if identifier = ''EPSS'' then (st, unpackEPSStatus data)
        else if identifier = ''HOST'' then (st, unpackHostname data)
        else if identifier = ''SOLR'' then (st, unpackSolarData data)
        else if identifier = ''RETX'' then (st, unpackRetransmitData data)
        else (st, [ConsoleDebugUnknown identifier]))"

text \<open>The size table of the specification, and the name each decoder reports.\<close>

definition fixedSize :: "string \<Rightarrow> nat option" where
  "fixedSize tag =
     (if tag \<in> set [''GYRO'', ''ACCL'', ''MAGN'', ''GRAV'', ''EULR'', ''BMED''] then Some 16
      else if tag \<in> set [''OBCR'', ''OBCD'', ''OBCC''] then Some 8
      else if tag \<in> set [''OBCL'', ''OBCP''] then Some 234
      else if tag = ''ADCS'' then Some 32
      else if tag = ''EPSS'' then Some 28
      else if tag = ''HOST'' then Some 15
      else if tag = ''SOLR'' then Some 36
      else None)"

definition reportedName :: "string \<Rightarrow> string" where
  "reportedName tag = (if tag = ''BMED'' then ''BME'' else if tag = ''EPSS'' then ''EPS'' else tag)"

section \<open>Frame classifier (processReceivedData)\<close>

text \<open>The character test of the packet scan: \<^verbatim>\<open>A-Z a-z 0-9 / + =\<close>.\<close>

definition isValid :: "char \<Rightarrow> bool" where
  "isValid c =
     ((code c \<ge> 65 \<and> code c \<le> 90) \<or> (code c \<ge> 97 \<and> code c \<le> 122) \<or>
      (code c \<ge> 48 \<and> code c \<le> 57) \<or> code c = 47 \<or> code c = 43 \<or> code c = 61)"

definition telemetryIds :: "string list" where
  "telemetryIds =
     [''GYRO'', ''ACCL'', ''MAGN'', ''GRAV'', ''EULR'', ''BMED'', ''POLL'',
      ''OBCR'', ''OBCD'', ''OBCC'', ''OBCL'', ''OBCP'', ''ADCS'', ''EPSS'',
      ''HOST'', ''SOLR'']"

text \<open>The identifiers that end an image packet when met during the scan.\<close>

definition nextIds :: "string list" where
  "nextIds = ''SEND'' # ''RETX'' # telemetryIds"

definition binaryIdentifiers :: "string list" where
  "binaryIdentifiers = telemetryIds @ [''RETX'']"

text \<open>
  The first loop of the image branch, \<^verbatim>\<open>for (i = 4; i < Math.min(length, 1024); i++)\<close>,
  run over the bytes from index \<open>i\<close> on: it stops at the first byte outside the packet
  alphabet, or at the first index where one of the known identifiers starts.
  \<open>None\<close> stands for \<^verbatim>\<open>packetEnd === -1\<close>.
\<close>

fun scanPacketEnd :: "nat \<Rightarrow> nat \<Rightarrow> bytes \<Rightarrow> nat option" where
  "scanPacketEnd i lim [] = None"
| "scanPacketEnd i lim (c # cs) =
     (if \<not> i < lim then None
      else if \<not> isValid c then Some i
      else if 4 \<le> length (c # cs) \<and> take 4 (c # cs) \<in> set nextIds then Some i
      else scanPacketEnd (i + 1) lim cs)"

text \<open>
  \<^verbatim>\<open>for (i = start; i < length; i++) if (buf[i] === 0x0A || buf[i] === 0x0D)\<close>:
  the index of the first line terminator at or after \<open>i\<close>, given the bytes from \<open>i\<close> on.
\<close>

fun findNewline :: "nat \<Rightarrow> bytes \<Rightarrow> nat option" where
  "findNewline i [] = None"
| "findNewline i (c # cs) = (if isNewline c then Some i else findNewline (i + 1) cs)"

text \<open>\<^verbatim>\<open>while (length > 0 && (buf[0] === 0x0A || buf[0] === 0x0D)) buf = buf.slice(1)\<close>\<close>

definition skipNewlines :: "bytes \<Rightarrow> bytes" where
  "skipNewlines buf = dropWhile isNewline buf"

text \<open>
  What the classifier hands on: an image packet (to \<^verbatim>\<open>processImagePacket\<close>), a binary
  packet (to \<^verbatim>\<open>unpackCommand\<close>), a text line (to \<^verbatim>\<open>processTextLine\<close>), and the
  console warning of the overflow branch.
\<close>

datatype frame = ImageChunk bytes | BinaryTelemetry bytes | TextLine string | Overflow

text \<open>
  One pass through the body of the \<^verbatim>\<open>while\<close> loop: \<open>Continue\<close> is the next iteration
  with the remaining buffer, \<open>Stop\<close> is \<^verbatim>\<open>break\<close>. A branch that neither extracts nor
  breaks falls through to the next one (\<open>Fallthrough\<close>).
\<close>

datatype stage = Continue "frame list" bytes | Stop "frame list" bytes | Fallthrough

definition imageBranch :: "bytes \<Rightarrow> stage" where
  "imageBranch dataBuffer =
     (if length dataBuffer \<ge> 5 then
        let identifier = identifierOf dataBuffer in
        if identifier = ''SEND'' \<or> identifier = ''RETX'' then
          let scanned = scanPacketEnd 4 (min (length dataBuffer) 1024) (drop 4 dataBuffer);
              packetEnd =
                (if scanned = None \<and> length dataBuffer < 1024
                 then (case findNewline 4 (drop 4 dataBuffer) of
                         Some i \<Rightarrow> Some i
                       | None \<Rightarrow> Some (length dataBuffer))
                 else scanned)
          in
          if (case packetEnd of Some e \<Rightarrow> e > 4 | None \<Rightarrow> False) then
            let e = the packetEnd;
                packet = slice 0 e dataBuffer;
                skipTo = (case findNewline e (drop e dataBuffer) of
                            Some i \<Rightarrow> i + 1
                          | None \<Rightarrow> e)
            in Continue [ImageChunk packet] (skipNewlines (drop skipTo dataBuffer))
          else if length dataBuffer < 1024 then Stop [] dataBuffer
          else Fallthrough
        else Fallthrough
      else Fallthrough)"

text \<open>
  \<^verbatim>\<open>getPacketSize\<close> reads the global buffer for the two variable-size identifiers. The
  result is a JavaScript number: \<open>-1\<close> and \<open>0\<close> are possible.
\<close>

definition packetSizes :: "(string \<times> int) list" where
  "packetSizes =
     [(''GYRO'', 16), (''ACCL'', 16), (''MAGN'', 16), (''GRAV'', 16), (''EULR'', 16),
      (''BMED'', 16), (''POLL'', - 1),
      (''OBCR'', 8), (''OBCD'', 8), (''OBCC'', 8),
      (''OBCL'', 234), (''OBCP'', 234),
      (''ADCS'', 32), (''EPSS'', 28), (''HOST'', 15), (''SOLR'', 36),
      (''RETX'', - 1)]"

definition getPacketSize :: "bytes \<Rightarrow> string \<Rightarrow> int" where
  "getPacketSize dataBuffer identifier =
     (if identifier = ''POLL'' then
        (if length dataBuffer \<ge> 8 then 8 + int (getUint32 dataBuffer 4) else - 1)
      else if identifier = ''RETX'' then int (min (length dataBuffer) 256)
      else (case map_of packetSizes identifier of Some n \<Rightarrow> n | None \<Rightarrow> 0))"

definition binaryBranch :: "bytes \<Rightarrow> stage" where
  "binaryBranch dataBuffer =
     (if length dataBuffer \<ge> 4 then
        let identifier = identifierOf dataBuffer in
        if identifier \<in> set binaryIdentifiers then
          let packetSize = getPacketSize dataBuffer identifier in
          if packetSize > 0 \<and> int (length dataBuffer) \<ge> packetSize
          then Continue [BinaryTelemetry (slice 0 (nat packetSize) dataBuffer)]
                 (drop (nat packetSize) dataBuffer)
          else if packetSize > 0 then Stop [] dataBuffer
          else Fallthrough
        else Fallthrough
      else Fallthrough)"

text \<open>
  The text branch. \<^verbatim>\<open>TextDecoder.decode\<close> does not throw, so the \<^verbatim>\<open>catch\<close> of the
  source is never entered. The overflow branch empties the buffer and warns on the
  console.
\<close>

definition textBranch :: "bytes \<Rightarrow> stage" where
  "textBranch dataBuffer =
     (case findNewline 0 dataBuffer of
        Some newlineIndex \<Rightarrow>
          let line = trim (slice 0 newlineIndex dataBuffer) in
          Continue (if line \<noteq> [] then [TextLine line] else [])
            (skipNewlines (drop (newlineIndex + 1) dataBuffer))
      | None \<Rightarrow>
          if length dataBuffer > 1024 then Stop [Overflow] []
          else Stop [] dataBuffer)"

definition loopBody :: "bytes \<Rightarrow> stage" where
  "loopBody dataBuffer =
     (case imageBranch dataBuffer of
        Fallthrough \<Rightarrow>
          (case binaryBranch dataBuffer of
             Fallthrough \<Rightarrow> textBranch dataBuffer
           | s \<Rightarrow> s)
      | s \<Rightarrow> s)"

lemma findNewline_bounds:
  "findNewline i xs = Some k \<Longrightarrow> i \<le> k \<and> k < i + length xs"
proof (induction xs arbitrary: i)
  case Nil
  then show ?case by simp
next
  case (Cons c cs)
  show ?case
  proof (cases "isNewline c")
    case True
    with Cons.prems show ?thesis by simp
  next
    case False
    with Cons.prems have "findNewline (i + 1) cs = Some k" by simp
    from Cons.IH [OF this] show ?thesis by simp
  qed
qed

lemma skipNewlines_length: "length (skipNewlines xs) \<le> length xs"
  by (simp add: skipNewlines_def length_dropWhile_le)

lemma imageBranch_shrinks:
  assumes "imageBranch buf = Continue fs rest"
  shows "length rest < length buf"
proof -
  from assms obtain e where e: "4 < e" "5 \<le> length buf"
    and rest: "rest = skipNewlines (drop (case findNewline e (drop e buf) of
                            Some i \<Rightarrow> i + 1 | None \<Rightarrow> e) buf)"
    by (auto simp: imageBranch_def Let_def split: if_splits option.splits)
  have "e \<le> (case findNewline e (drop e buf) of Some i \<Rightarrow> i + 1 | None \<Rightarrow> e)"
    by (auto split: option.splits dest: findNewline_bounds)
  then have "length (drop (case findNewline e (drop e buf) of Some i \<Rightarrow> i + 1 | None \<Rightarrow> e) buf)
      < length buf"
    using e by simp
  then show ?thesis
    unfolding rest using skipNewlines_length le_less_trans by blast
qed

lemma binaryBranch_shrinks:
  assumes "binaryBranch buf = Continue fs rest"
  shows "length rest < length buf"
  using assms by (auto simp: binaryBranch_def Let_def split: if_splits)

lemma textBranch_shrinks:
  assumes "textBranch buf = Continue fs rest" and "buf \<noteq> []"
  shows "length rest < length buf"
proof -
  from assms(1) obtain k where "rest = skipNewlines (drop (k + 1) buf)"
    by (auto simp: textBranch_def Let_def split: option.splits if_splits)
  moreover have "length (drop (k + 1) buf) < length buf"
    using assms(2) by simp
  ultimately show ?thesis
    using skipNewlines_length le_less_trans by blast
qed

lemma loopBody_shrinks:
  assumes "loopBody buf = Continue fs rest" and "buf \<noteq> []"
  shows "length rest < length buf"
  using assms imageBranch_shrinks binaryBranch_shrinks textBranch_shrinks
  by (auto simp: loopBody_def split: stage.splits)

text \<open>
  The loop \<^verbatim>\<open>while (dataBuffer.length > 0)\<close>: the frames extracted, in order, and the
  bytes left in the buffer. Every iteration that continues has consumed at least one
  byte, so the loop ends.
\<close>

function classify :: "bytes \<Rightarrow> frame list \<times> bytes" where
  "classify dataBuffer =
     (if dataBuffer = [] then ([], [])
      else (case loopBody dataBuffer of
              Continue fs rest \<Rightarrow> (fs @ fst (classify rest), snd (classify rest))
            | Stop fs rest \<Rightarrow> (fs, rest)
            | Fallthrough \<Rightarrow> ([], dataBuffer)))"
  by pat_completeness auto
termination
  by (relation "measure length") (auto dest: loopBody_shrinks)

declare classify.simps [simp del]

text \<open>
  \<^verbatim>\<open>processReceivedData\<close>: append the delivery to the global buffer and run the loop.
  The result is the list of frames handed on and the new value of the global buffer.
\<close>

definition processReceivedData :: "bytes \<Rightarrow> bytes \<Rightarrow> frame list \<times> bytes" where
  "processReceivedData dataBuffer data = classify (dataBuffer @ data)"

text \<open>A sequence of deliveries, each processed with the buffer the previous one left.\<close>

fun deliveries :: "bytes \<Rightarrow> bytes list \<Rightarrow> frame list \<times> bytes" where
  "deliveries dataBuffer [] = ([], dataBuffer)"
| "deliveries dataBuffer (d # ds) =
     (fst (processReceivedData dataBuffer d) @
        fst (deliveries (snd (processReceivedData dataBuffer d)) ds),
      snd (deliveries (snd (processReceivedData dataBuffer d)) ds))"

text \<open>
  A complete fixed-size telemetry frame as it travels on the wire: one of the fifteen
  fixed-size identifiers followed by payload bytes up to the size of the table. A
  partial frame is the empty list or a proper beginning of such a frame.
\<close>

definition fixedFrame :: "bytes \<Rightarrow> bool" where
  "fixedFrame f = (fixedSize (slice 0 4 f) = Some (length f))"

definition partialFrame :: "bytes \<Rightarrow> bool" where
  "partialFrame r = (r = [] \<or> (\<exists>f. fixedFrame f \<and> strict_prefix r f))"

section \<open>Image reassembler\<close>

text \<open>
  The value of one entry of \<^verbatim>\<open>imageReceptions\<close>. \<^verbatim>\<open>receivedChunks\<close> is a JavaScript
  \<^verbatim>\<open>Set\<close>: its elements in insertion order, \<^verbatim>\<open>has\<close> is membership, \<^verbatim>\<open>add\<close> appends
  (it is called only for an index that is not yet a member), \<^verbatim>\<open>size\<close> is the length.
\<close>

record imageInfo =
  totalChunks :: nat
  receivedChunks :: "nat list"
  startTime :: nat
  lastPacketTime :: nat
  retransmitAttempts :: nat
  filename :: string

text \<open>
  The globals of the image module. A JavaScript \<^verbatim>\<open>Map\<close> keeps its entries in
  insertion order, and \<^verbatim>\<open>findOrCreateImageReception\<close> iterates over them, so the two
  tables are association lists: \<^verbatim>\<open>get\<close> is \<^const>\<open>map_of\<close>, \<^verbatim>\<open>set\<close> is
  \<^const>\<open>AList.update\<close> (in place for a known key, at the end for a new one),
  \<^verbatim>\<open>delete\<close> is \<^const>\<open>AList.delete\<close>. The chunk store of one image is only read
  and written by index. \<^verbatim>\<open>currentImageFilename\<close> is \<^verbatim>\<open>null\<close> or a string.
\<close>

record images =
  imageReceptions :: "(string \<times> imageInfo) list"
  imagePacketBuffer :: "(string \<times> (nat \<rightharpoonup> string)) list"
  currentImageFilename :: "string option"

definition IMAGE_TIMEOUT :: nat where
  "IMAGE_TIMEOUT = 30000"

definition MAX_RETRANSMIT_ATTEMPTS :: nat where
  "MAX_RETRANSMIT_ATTEMPTS = 3"

definition MAX_COMMAND_SIZE :: nat where
  "MAX_COMMAND_SIZE = 60"

text \<open>A number interpolated into a template string: its decimal digits.\<close>

definition digitChar :: "nat \<Rightarrow> char" where
  "digitChar d = char_of (48 + d)"

function showNat :: "nat \<Rightarrow> string" where
  "showNat n = (if n < 10 then [digitChar n] else showNat (n div 10) @ [digitChar (n mod 10)])"
  by pat_completeness auto
termination
  by (relation "measure id") auto

declare showNat.simps [simp del]

text \<open>
  \<^verbatim>\<open>\d\<close>, and \<^verbatim>\<open>parseInt(s, 10)\<close> on a string that the source has already matched
  against \<^verbatim>\<open>^\d{8}$\<close>: the value of its digits, never \<^verbatim>\<open>NaN\<close> and never negative.
\<close>

definition isDigit :: "char \<Rightarrow> bool" where
  "isDigit c = (code c \<ge> 48 \<and> code c \<le> 57)"

definition parseInt :: "string \<Rightarrow> nat" where
  "parseInt s = foldl (\<lambda>acc c. 10 * acc + (code c - 48)) 0 s"

text \<open>
  The backwards loop \<^verbatim>\<open>for (i = length - 1; i >= 4; i--)\<close> that moves \<^verbatim>\<open>validEnd\<close>
  down over trailing characters outside the packet alphabet; the second argument is
  \<open>i\<close>, the third the running \<^verbatim>\<open>validEnd\<close>.
\<close>

fun validEndLoop :: "string \<Rightarrow> nat \<Rightarrow> nat \<Rightarrow> nat" where
  "validEndLoop packetStr 0 validEnd = validEnd"
| "validEndLoop packetStr (Suc j) validEnd =
     (if Suc j < 4 then validEnd
      else if \<not> isValid (packetStr ! Suc j) then validEndLoop packetStr j (Suc j)
      else validEnd)"

definition validEndOf :: "string \<Rightarrow> nat" where
  "validEndOf packetStr = validEndLoop packetStr (length packetStr - 1) (length packetStr)"

text \<open>
  The three places that reclassify the packet as a command response: the text between
  the tag and \<^verbatim>\<open>validEnd\<close>, trimmed, is logged unless it is empty.
\<close>

definition commandResponse :: "string \<Rightarrow> nat \<Rightarrow> event list" where
  "commandResponse packetStr validEnd =
     (let response = trim (slice 4 validEnd packetStr) in
      if response \<noteq> [] then [ImageLog Response (PlainResponse response)] else [])"

text \<open>\<^verbatim>\<open>a || b\<close> on strings: \<^verbatim>\<open>null\<close> and the empty string are falsy.\<close>

definition orElse :: "string option \<Rightarrow> string \<Rightarrow> string" where
  "orElse a b = (case a of None \<Rightarrow> b | Some s \<Rightarrow> if s = [] then b else s)"

definition findOrCreateImageReception ::
  "nat \<Rightarrow> images \<Rightarrow> string \<Rightarrow> nat \<Rightarrow> nat \<Rightarrow> string \<times> images \<times> event list" where
  "findOrCreateImageReception now st imageId totalNum currentNum =
     (case find (\<lambda>(existingId, imageInfo). totalChunks imageInfo = totalNum) (imageReceptions st) of
        Some (existingId, imageInfo) \<Rightarrow> (existingId, st, [])
      | None \<Rightarrow>
          let actualImageId =
                (if currentNum = 0 then imageId
                 else ''img_'' @ showNat totalNum @ ''_'' @ showNat now);
              created =
                \<lparr>totalChunks = totalNum, receivedChunks = [], startTime = now,
                 lastPacketTime = now, retransmitAttempts = 0,
                 filename = orElse (currentImageFilename st)
                              (''image_'' @ showNat totalNum @ ''.jpg.gz'')\<rparr>
          in (actualImageId,
              st\<lparr>imageReceptions := AList.update actualImageId created (imageReceptions st),
                 imagePacketBuffer := AList.update actualImageId Map.empty (imagePacketBuffer st)\<rparr>,
              [ImageLog Info (StartingReception actualImageId totalNum)]))"

definition setCurrentImageFilename :: "images \<Rightarrow> string \<Rightarrow> images \<times> event list" where
  "setCurrentImageFilename st name =
     (st\<lparr>currentImageFilename := Some (name @ ''.chunked'')\<rparr>,
      [ImageLog Info (ExpectingImage name)])"

subsection \<open>Reconstruction\<close>

text \<open>\<^verbatim>\<open>chunk.replace(/=+$/, '')\<close>\<close>

definition stripPadding :: "string \<Rightarrow> string" where
  "stripPadding chunk = rev (dropWhile (\<lambda>c. c = CHR ''='') (rev chunk))"

text \<open>
  The reconstruction loop over \<open>i = 0, \<dots>, totalChunks - 1\<close>: \<open>Inl i\<close> when chunk \<open>i\<close>
  is not in the store, otherwise the concatenation.
\<close>

fun reconstruct :: "(nat \<rightharpoonup> string) \<Rightarrow> nat \<Rightarrow> nat list \<Rightarrow> string \<Rightarrow> nat + string" where
  "reconstruct packetBuffer totalNum [] reconstructedData = Inr reconstructedData"
| "reconstruct packetBuffer totalNum (i # is) reconstructedData =
     (case packetBuffer i of
        Some chunk \<Rightarrow>
          reconstruct packetBuffer totalNum is
            (reconstructedData @ (if i < totalNum - 1 then stripPadding chunk else chunk))
      | None \<Rightarrow> Inl i)"

definition isBase64Char :: "char \<Rightarrow> bool" where
  "isBase64Char c =
     ((code c \<ge> 65 \<and> code c \<le> 90) \<or> (code c \<ge> 97 \<and> code c \<le> 122) \<or>
      (code c \<ge> 48 \<and> code c \<le> 57) \<or> code c = 43 \<or> code c = 47)"

text \<open>\<^verbatim>\<open>/^[A-Za-z0-9+/]*={0,2}$/.test(s)\<close>\<close>

definition isBase64Format :: "string \<Rightarrow> bool" where
  "isBase64Format s = (dropWhile isBase64Char s \<in> set [[], ''='', ''==''])"

text \<open>
  \<^verbatim>\<open>atob\<close>, the browser's forgiving base64 decoder: ASCII whitespace is removed; when
  the length is a multiple of four, one or two trailing \<^verbatim>\<open>=\<close> are removed; a length of
  one modulo four, or any character outside the alphabet, makes it throw (\<open>None\<close>);
  every four characters give three bytes, a rest of three gives two and a rest of two
  gives one.
\<close>

definition base64Value :: "char \<Rightarrow> nat" where
  "base64Value c =
     (if code c \<ge> 65 \<and> code c \<le> 90 then code c - 65
      else if code c \<ge> 97 \<and> code c \<le> 122 then code c - 71
      else if code c \<ge> 48 \<and> code c \<le> 57 then code c + 4
      else if code c = 43 then 62 else 63)"

fun decodeSextets :: "nat list \<Rightarrow> bytes" where
  "decodeSextets (a # b # c # d # rest) =
     char_of (a * 4 + b div 16) # char_of ((b mod 16) * 16 + c div 4) # char_of ((c mod 4) * 64 + d) #
     decodeSextets rest"
| "decodeSextets [a, b, c] = [char_of (a * 4 + b div 16), char_of ((b mod 16) * 16 + c div 4)]"
| "decodeSextets [a, b] = [char_of (a * 4 + b div 16)]"
| "decodeSextets [a] = []"
| "decodeSextets [] = []"

definition atob :: "string \<Rightarrow> bytes option" where
  "atob s =
     (let stripped = filter (\<lambda>c. code c \<notin> set [9, 10, 12, 13, 32]) s;
          body =
            (if length stripped mod 4 = 0 then
               (if 2 \<le> length stripped \<and> drop (length stripped - 2) stripped = ''==''
                then take (length stripped - 2) stripped
                else if 1 \<le> length stripped \<and> drop (length stripped - 1) stripped = ''=''
                then take (length stripped - 1) stripped
                else stripped)
             else stripped)
      in if length body mod 4 = 1 \<or> \<not> list_all isBase64Char body then None
         else Some (decodeSextets (map base64Value body)))"

text \<open>
  \<^verbatim>\<open>DecompressionStream('gzip')\<close> is the browser's: the way its run over the compressed
  bytes ends is an argument of the model. It can throw while the stream is set up (the
  \<^verbatim>\<open>catch\<close> of the source), deliver the decompressed bytes, or reject the promise
  \<^verbatim>\<open>arrayBuffer()\<close> returns, which no handler of the image module catches: the
  \<^verbatim>\<open>unhandledrejection\<close> listener of \<^verbatim>\<open>main.js\<close> logs it.
\<close>

datatype gunzipResult = Inflated bytes | GunzipThrows | GunzipRejects

type_synonym gunzip = "bytes \<Rightarrow> gunzipResult"

text \<open>
  \<^verbatim>\<open>completeImageReception\<close>, up to its \<^verbatim>\<open>return\<close>. The decompression is
  asynchronous: the call attaches the \<^verbatim>\<open>then\<close> callback to the promise and returns with
  both tables as they are; that is the event \<^const>\<open>Decompress\<close>. When fewer than two
  bytes were decoded, the \<^verbatim>\<open>console.log\<close> after the magic-number warning calls
  \<^verbatim>\<open>toString\<close> on \<^verbatim>\<open>undefined\<close>; the \<^verbatim>\<open>TypeError\<close> is caught by the decode
  \<^verbatim>\<open>catch\<close>.
\<close>

definition completeImageReception :: "gunzip \<Rightarrow> images \<Rightarrow> string \<Rightarrow> images \<times> event list" where
  "completeImageReception gz st imageId =
     (case (map_of (imageReceptions st) imageId, map_of (imagePacketBuffer st) imageId) of
        (Some imageInfo, Some packetBuffer) \<Rightarrow>
          (case reconstruct packetBuffer (totalChunks imageInfo) [0..<totalChunks imageInfo] [] of
             Inl i \<Rightarrow> (st, [ImageLog Error (MissingChunk i imageId)])
           | Inr reconstructedData \<Rightarrow>
               if \<not> isBase64Format reconstructedData
               then (st, [ImageLog Error (InvalidBase64 imageId)])
               else
                 (case atob reconstructedData of
                    None \<Rightarrow> (st, [ImageLog Error (DecodeFailed imageId)])
                  | Some bytes \<Rightarrow>
                      let magic =
                            (if length bytes < 2 \<or> code (bytes ! 0) \<noteq> 0x1f \<or> code (bytes ! 1) \<noteq> 0x8b
                             then [ImageLog Warning NoGzipMagic] else [])
                      in
                      if length bytes < 2
                      then (st, magic @ [ImageLog Error (DecodeFailed imageId)])
                      else
                        (case gz bytes of
                           GunzipThrows \<Rightarrow>
                             (st, magic @
                              [ImageLog Warning DecompressFailed,
                               ImageLog Response (ImageCompleted imageId),
                               Download imageId bytes None])
                         | Inflated decompressed \<Rightarrow> (st, magic @ [Decompress imageId bytes])
                         | GunzipRejects \<Rightarrow> (st, magic @ [Decompress imageId bytes]))))
      | _ \<Rightarrow> (st, [ImageLog Error (MissingData imageId)]))"

text \<open>
  The settling of the promise, in a later turn of the event loop, on the tables as they
  are by then. When it resolves, the \<^verbatim>\<open>then\<close> callback logs the completion, adds the
  download links, deletes the reception and its chunk store, and logs the cleanup. When
  it rejects, the \<^verbatim>\<open>unhandledrejection\<close> listener logs the error. (A decompression
  that threw was never started.)
\<close>

definition onDecompressed :: "gunzip \<Rightarrow> images \<Rightarrow> string \<Rightarrow> bytes \<Rightarrow> images \<times> event list" where
  "onDecompressed gz st imageId bytes =
     (case gz bytes of
        Inflated decompressed \<Rightarrow>
          (st\<lparr>imageReceptions := AList.delete imageId (imageReceptions st),
              imagePacketBuffer := AList.delete imageId (imagePacketBuffer st)\<rparr>,
           [ImageLog Response (ImageCompleted imageId),
            Download imageId bytes (Some decompressed),
            ImageLog Info (CleanupCompleted imageId)])
      | GunzipThrows \<Rightarrow> (st, [])
      | GunzipRejects \<Rightarrow> (st, [ImageLog Error UnhandledRejection]))"

subsection \<open>processImagePacket\<close>

text \<open>
  The second half of \<^verbatim>\<open>processImagePacket\<close>, from the lookup of the reception on:
  duplicate check, store, progress line, completion. A table without the entry makes
  the source dereference \<^verbatim>\<open>undefined\<close>; the \<^verbatim>\<open>catch\<close> logs the error.
\<close>

definition storeChunk ::
  "gunzip \<Rightarrow> nat \<Rightarrow> images \<Rightarrow> string \<Rightarrow> nat \<Rightarrow> nat \<Rightarrow> string \<Rightarrow> images \<times> event list" where
  "storeChunk gz now st actualImageId totalNum currentNum chunkData =
     (case map_of (imageReceptions st) actualImageId of
        None \<Rightarrow> (st, [ImageLog Error PacketError])
      | Some imageInfo \<Rightarrow>
          if currentNum \<in> set (receivedChunks imageInfo) then (st, [])
          else
            (case map_of (imagePacketBuffer st) actualImageId of
               None \<Rightarrow> (st, [ImageLog Error PacketError])
             | Some packetBuffer \<Rightarrow>
                 let stored =
                       imageInfo\<lparr>receivedChunks := receivedChunks imageInfo @ [currentNum],
                                 lastPacketTime := now\<rparr>;
                     st' =
                       st\<lparr>imageReceptions :=
                            AList.update actualImageId stored (imageReceptions st),
                          imagePacketBuffer :=
                            AList.update actualImageId (packetBuffer(currentNum \<mapsto> chunkData))
                              (imagePacketBuffer st)\<rparr>;
                     progress =
                       (if currentNum mod 50 = 0 \<or> currentNum = 0 \<or> currentNum = totalNum - 1
                        then [ImageLog Response
                                (Progress actualImageId (length (receivedChunks stored)) totalNum)]
                        else [])
                 in
                 if length (receivedChunks stored) = totalChunks stored
                 then (fst (completeImageReception gz st' actualImageId),
                       progress @ snd (completeImageReception gz st' actualImageId))
                 else (st', progress)))"

text \<open>
  \<^verbatim>\<open>processImagePacket\<close>, on the decoded text of the packet. \<^verbatim>\<open>isNaN\<close> and the sign
  test have no counterpart: the two numbers are parsed from eight digits.
\<close>

definition processImagePacket :: "gunzip \<Rightarrow> nat \<Rightarrow> images \<Rightarrow> string \<Rightarrow> images \<times> event list" where
  "processImagePacket gz now st packetStr =
     (let identifier = slice 0 4 packetStr in
      if identifier \<noteq> ''SEND'' \<and> identifier \<noteq> ''RETX''
      then (st, [ImageLog Warning NotSendRetx])
      else
        let validEnd = validEndOf packetStr in
        if validEnd \<le> 12 then (st, commandResponse packetStr validEnd)
        else
          let potentialMetadata = slice (validEnd - 8) validEnd packetStr;
              hasValidMetadata = (length potentialMetadata = 8 \<and> list_all isDigit potentialMetadata)
          in
          if \<not> hasValidMetadata then (st, commandResponse packetStr validEnd)
          else if validEnd < 13 then (st, [ImageLog Warning PacketTooShort])
          else
            let metadataStart = validEnd - 8;
                totalNum = parseInt (slice metadataStart (metadataStart + 4) packetStr);
                currentNum = parseInt (slice (metadataStart + 4) (metadataStart + 8) packetStr)
            in
            if totalNum \<le> 0 then (st, commandResponse packetStr validEnd)
            else if currentNum \<ge> totalNum then (st, commandResponse packetStr validEnd)
            else
              let chunkData = slice 4 metadataStart packetStr in
              if chunkData = [] then (st, [ImageLog Warning EmptyChunkData])
              else
                let imageId = ''img_'' @ showNat totalNum;
                    found = findOrCreateImageReception now st imageId totalNum currentNum;
                    actualImageId = fst found;
                    st1 = fst (snd found);
                    stored = storeChunk gz now st1 actualImageId totalNum currentNum chunkData
                in (fst stored, snd (snd found) @ snd stored))"

text \<open>
  A sequence of packets, each with the clock reading of its arrival, handed to
  \<^verbatim>\<open>processImagePacket\<close> one after the other.
\<close>

fun processImagePackets ::
  "gunzip \<Rightarrow> images \<Rightarrow> (nat \<times> string) list \<Rightarrow> images \<times> event list" where
  "processImagePackets gz st [] = (st, [])"
| "processImagePackets gz st ((now, packetStr) # rest) =
     (fst (processImagePackets gz (fst (processImagePacket gz now st packetStr)) rest),
      snd (processImagePacket gz now st packetStr) @
      snd (processImagePackets gz (fst (processImagePacket gz now st packetStr)) rest))"

subsection \<open>The event loop\<close>

text \<open>
  The decompressions that a list of events has started, each a pending promise.
\<close>

type_synonym promise = "string \<times> bytes"

fun promises :: "event list \<Rightarrow> promise list" where
  "promises [] = []"
| "promises (Decompress imageId bytes # evs) = (imageId, bytes) # promises evs"
| "promises (ev # evs) = promises evs"

text \<open>
  One turn of the event loop, as far as the image module goes: a packet is handed to
  \<^verbatim>\<open>processImagePacket\<close> at a clock reading, or the pending promise with the given
  position in the list settles. \<^verbatim>\<open>processImagePacket\<close> is synchronous, so no promise
  settles while it runs. The state is the tables and the pending promises.
\<close>

datatype task = Packet nat string | Settled nat

definition runTask ::
  "gunzip \<Rightarrow> images \<times> promise list \<Rightarrow> task \<Rightarrow> (images \<times> promise list) \<times> event list" where
  "runTask gz s task =
     (case s of (st, pending) \<Rightarrow>
        (case task of
           Packet now packetStr \<Rightarrow>
             (case processImagePacket gz now st packetStr of
                (st', evs) \<Rightarrow> ((st', pending @ promises evs), evs))
         | Settled k \<Rightarrow>
             if k < length pending
             then (case onDecompressed gz st (fst (pending ! k)) (snd (pending ! k)) of
                     (st', evs) \<Rightarrow> ((st', take k pending @ drop (Suc k) pending), evs))
             else (s, [])))"

fun runTasks ::
  "gunzip \<Rightarrow> images \<times> promise list \<Rightarrow> task list \<Rightarrow> (images \<times> promise list) \<times> event list" where
  "runTasks gz s [] = (s, [])"
| "runTasks gz s (task # rest) =
     (case runTask gz s task of
        (s', evs) \<Rightarrow> (case runTasks gz s' rest of (s'', evs') \<Rightarrow> (s'', evs @ evs')))"

subsection \<open>The wire format of a chunk and the reclassification rule\<close>

text \<open>
  The packet format of the source's comment,
  \<^verbatim>\<open>SEND[base64_data][4-digit total][4-digit current]\<close>: a tag, the chunk text, and
  the two numbers as four decimal digits each.
\<close>

definition pad4 :: "nat \<Rightarrow> string" where
  "pad4 n =
     [digitChar (n div 1000 mod 10), digitChar (n div 100 mod 10),
      digitChar (n div 10 mod 10), digitChar (n mod 10)]"

definition imagePacket :: "string \<Rightarrow> string \<Rightarrow> nat \<Rightarrow> nat \<Rightarrow> string" where
  "imagePacket tag chunkData totalNum currentNum = tag @ chunkData @ pad4 totalNum @ pad4 currentNum"

text \<open>
  The reclassification rule in the words of the specification, with the length bound
  read as the source has it: the valid part of the packet, tag included, is shorter
  than 13 characters; or the last eight characters of the valid part are not all digits;
  or the numbers they spell fail \<open>totalNum > 0\<close> and \<open>currentNum < totalNum\<close>.
\<close>

definition reclassified :: "string \<Rightarrow> bool" where
  "reclassified packetStr =
     (let validEnd = validEndOf packetStr;
          metadata = slice (validEnd - 8) validEnd packetStr
      in validEnd < 13 \<or>
         \<not> (length metadata = 8 \<and> list_all isDigit metadata) \<or>
         parseInt (take 4 metadata) = 0 \<or>
         parseInt (take 4 metadata) \<le> parseInt (drop 4 metadata))"

fun isPlainResponse :: "event \<Rightarrow> bool" where
  "isPlainResponse (ImageLog sev (PlainResponse response)) = True"
| "isPlainResponse ev = False"

text \<open>An error or a warning on the terminal, and a line written to the transport.\<close>

fun isReport :: "event \<Rightarrow> bool" where
  "isReport (Log sev m) = (sev = Error \<or> sev = Warning)"
| "isReport (ImageLog sev m) = (sev = Error \<or> sev = Warning)"
| "isReport (RetransmitLog sev m) = (sev = Error \<or> sev = Warning)"
| "isReport ev = False"

fun isWrite :: "event \<Rightarrow> bool" where
  "isWrite (Write line) = True"
| "isWrite ev = False"

fun isDownload :: "event \<Rightarrow> bool" where
  "isDownload (Download imageId compressed decompressed) = True"
| "isDownload ev = False"

text \<open>The module's state when the page has loaded.\<close>

definition noImages :: images where
  "noImages = \<lparr>imageReceptions = [], imagePacketBuffer = [], currentImageFilename = None\<rparr>"

text \<open>
  The tables with no reception, and with one reception of \<open>n\<close> chunks of which those
  with the indices \<open>arrived\<close> have been stored, in this order; \<open>chunks i\<close> is the text
  of chunk \<open>i\<close>.
\<close>

definition idle :: "string option \<Rightarrow> images" where
  "idle current = \<lparr>imageReceptions = [], imagePacketBuffer = [], currentImageFilename = current\<rparr>"

definition chunkStore :: "(nat \<Rightarrow> string) \<Rightarrow> nat list \<Rightarrow> (nat \<rightharpoonup> string)" where
  "chunkStore chunks arrived = (\<lambda>j. if j \<in> set arrived then Some (chunks j) else None)"

definition receiving ::
  "string option \<Rightarrow> nat \<Rightarrow> (nat \<Rightarrow> string) \<Rightarrow> string \<Rightarrow> nat \<Rightarrow> nat \<Rightarrow> string \<Rightarrow> nat list \<Rightarrow> images" where
  "receiving current n chunks imageId started latest name arrived =
     \<lparr>imageReceptions =
        [(imageId, \<lparr>totalChunks = n, receivedChunks = arrived, startTime = started,
                    lastPacketTime = latest, retransmitAttempts = 0, filename = name\<rparr>)],
      imagePacketBuffer = [(imageId, chunkStore chunks arrived)],
      currentImageFilename = current\<rparr>"

text \<open>
  The payload in the words of the specification: the chunks in index order
  \<open>0, \<dots>, n - 1\<close>, trailing \<^verbatim>\<open>=\<close> stripped from every chunk except the last.
\<close>

definition paddingCorrected :: "nat \<Rightarrow> (nat \<Rightarrow> string) \<Rightarrow> string" where
  "paddingCorrected n chunks =
     concat (map (\<lambda>i. if i < n - 1 then stripPadding (chunks i) else chunks i) [0..<n])"

text \<open>No reception holds a chunk index twice in its received set.\<close>

definition receivedOnce :: "images \<Rightarrow> bool" where
  "receivedOnce st =
     list_all (\<lambda>(imageId, imageInfo). distinct (receivedChunks imageInfo)) (imageReceptions st)"

section \<open>Retransmission coordinator\<close>

text \<open>
  \<^verbatim>\<open>checkMissingPackets\<close>: the indices below \<^verbatim>\<open>totalChunks\<close> that are not in the
  received set, in ascending order, and the warning that lists the first ten.
\<close>

definition checkMissingPackets :: "images \<Rightarrow> string \<Rightarrow> nat list \<times> event list" where
  "checkMissingPackets st imageId =
     (case map_of (imageReceptions st) imageId of
        None \<Rightarrow> ([], [RetransmitLog Warning (NoReception imageId)])
      | Some imageInfo \<Rightarrow>
          let missing = filter (\<lambda>i. i \<notin> set (receivedChunks imageInfo)) [0..<totalChunks imageInfo] in
          (missing,
           if length missing > 0
           then [RetransmitLog Warning
                   (MissingPackets (length missing) imageId (slice 0 10 missing) (length missing > 10))]
           else []))"

text \<open>\<^verbatim>\<open>xs.join(sep)\<close>\<close>

fun joinWith :: "string \<Rightarrow> string list \<Rightarrow> string" where
  "joinWith sep [] = []"
| "joinWith sep [x] = x"
| "joinWith sep (x # y # ys) = x @ sep @ joinWith sep (y # ys)"

text \<open>\<^verbatim>\<open>s.replace(pat, '')\<close> with a string pattern: the first occurrence is removed.\<close>

fun removeFirst :: "string \<Rightarrow> string \<Rightarrow> string" where
  "removeFirst pat [] = []"
| "removeFirst pat (c # cs) =
     (if take (length pat) (c # cs) = pat then drop (length pat) (c # cs)
      else c # removeFirst pat cs)"

text \<open>The template \<^verbatim>\<open>`RETRANSMIT ${filename} ${chunk.join(' ')}`\<close>.\<close>

definition retransmitCommand :: "string \<Rightarrow> nat list \<Rightarrow> string" where
  "retransmitCommand name chunk = ''RETRANSMIT '' @ name @ '' '' @ joinWith '' '' (map showNat chunk)"

text \<open>The file name used when the reception has none.\<close>

definition fallbackFilename :: "string \<Rightarrow> string" where
  "fallbackFilename imageId = ''image_'' @ removeFirst ''img_'' imageId @ ''.jpg.gz.chunked''"

text \<open>
  The batch loop \<^verbatim>\<open>for (i = 0; i < missing.length; i += maxPacketsPerCommand)\<close>, from
  index \<open>i\<close> on. A command longer than 59 characters is cut to half of its indices; if
  the cut command is still too long the batch is skipped, otherwise the loop goes on
  behind the indices that were sent. The source enters the loop only with
  \<open>maxPacketsPerCommand \<ge> 1\<close>; the first test of the model makes the definition total
  for the other values. The two-second pauses between batches are not part of the model.
  \<^verbatim>\<open>length\<close> counts characters and \<^verbatim>\<open>TextEncoder\<close> writes bytes: they agree for
  ASCII file names, which is what the model covers.
\<close>

function sendBatches :: "string \<Rightarrow> nat \<Rightarrow> nat list \<Rightarrow> nat \<Rightarrow> event list" where
  "sendBatches name maxPacketsPerCommand missing i =
     (if maxPacketsPerCommand < 1 \<or> \<not> i < length missing then []
      else
        let chunk = slice i (min (i + maxPacketsPerCommand) (length missing)) missing;
            command = retransmitCommand name chunk
        in
        if length command > MAX_COMMAND_SIZE - 1 then
          let safePacketCount = max 1 (length chunk div 2);
              safeChunk = slice 0 safePacketCount chunk;
              safeCommand = retransmitCommand name safeChunk
          in
          RetransmitLog Warning (CommandTooLong (length command) safePacketCount) #
          (if length safeCommand > MAX_COMMAND_SIZE - 1
           then RetransmitLog Error CannotFit #
                sendBatches name maxPacketsPerCommand missing (i + maxPacketsPerCommand)
           else Write (safeCommand @ [LF]) #
                sendBatches name maxPacketsPerCommand missing (i + safePacketCount))
        else
          let totalBatches = (length missing + maxPacketsPerCommand - 1) div maxPacketsPerCommand;
              currentBatch = i div maxPacketsPerCommand + 1
          in
          RetransmitLog Command
            (RetransmitBatch (if totalBatches > 1 then Some (currentBatch, totalBatches) else None)
               (length chunk) (length command)) #
          Write (command @ [LF]) #
          sendBatches name maxPacketsPerCommand missing (i + maxPacketsPerCommand))"
  by pat_completeness auto
termination
  by (relation "measure (\<lambda>(name, m, missing, i). length missing - i)")
    (auto intro!: diff_less_mono2 simp: less_max_iff_disj)

declare sendBatches.simps [simp del]

text \<open>
  The part of \<^verbatim>\<open>requestRetransmission\<close> behind the attempt counter: the size of a
  batch from the 60-byte budget at five bytes per index, the batches, and the closing
  line with the attempt number.
\<close>

definition requestBatches :: "string \<Rightarrow> nat list \<Rightarrow> nat \<Rightarrow> event list" where
  "requestBatches name missing attempt =
     (let baseCommand = ''RETRANSMIT '' @ name @ '' '';
          bytesAvailable = int MAX_COMMAND_SIZE - int (length baseCommand) - 1;
          avgBytesPerPacket = 5;
          maxPacketsPerCommand = nat (max 1 (bytesAvailable div avgBytesPerPacket))
      in
      if maxPacketsPerCommand < 1
      then [RetransmitLog Error (FilenameTooLong (length name))]
      else RetransmitLog Info (RequestingPackets (length missing) maxPacketsPerCommand) #
           sendBatches name maxPacketsPerCommand missing 0 @
           [RetransmitLog Info (RequestComplete attempt)])"

text \<open>
  \<^verbatim>\<open>requestRetransmission\<close>. The first argument says whether \<^verbatim>\<open>writer\<close> is set; a
  write that is accepted by the transport does not throw. \<^verbatim>\<open>missingPackets\<close> is
  \<open>None\<close> for \<^verbatim>\<open>null\<close>.
\<close>

definition requestRetransmission ::
  "bool \<Rightarrow> images \<Rightarrow> string \<Rightarrow> nat list option \<Rightarrow> images \<times> event list" where
  "requestRetransmission writer st imageId missingPackets =
     (if \<not> writer then (st, [RetransmitLog Error NotConnected])
      else
        let checked = (case missingPackets of
                         Some given \<Rightarrow> (given, [])
                       | None \<Rightarrow> checkMissingPackets st imageId);
            missing = fst checked
        in
        if length missing = 0 then (st, snd checked @ [RetransmitLog Info (NoMissingPackets imageId)])
        else
          (case map_of (imageReceptions st) imageId of
             Some imageInfo \<Rightarrow>
               let counted = imageInfo\<lparr>retransmitAttempts := retransmitAttempts imageInfo + 1\<rparr>;
                   st' = st\<lparr>imageReceptions := AList.update imageId counted (imageReceptions st)\<rparr>
               in
               if retransmitAttempts counted > MAX_RETRANSMIT_ATTEMPTS
               then (st', snd checked @ [RetransmitLog Warning (MaxAttemptsReached imageId)])
               else (st', snd checked @
                          requestBatches (orElse (Some (filename counted)) (fallbackFilename imageId))
                            missing (retransmitAttempts counted))
           | None \<Rightarrow>
               (st, snd checked @ requestBatches (fallbackFilename imageId) missing 1)))"

text \<open>
  One run of the callback of \<^verbatim>\<open>startImageTimeoutChecker\<close> over the entries of
  \<^verbatim>\<open>imageReceptions\<close>: a reception silent for more than \<^verbatim>\<open>IMAGE_TIMEOUT\<close> with
  missing chunks is reported, with a manual command for its first four missing indices,
  and its \<^verbatim>\<open>lastPacketTime\<close> is set to the time of the run. The test
  \<^verbatim>\<open>now - lastPacketTime > IMAGE_TIMEOUT\<close> is written without the subtraction.
\<close>

fun timeoutEntries ::
  "nat \<Rightarrow> images \<Rightarrow> (string \<times> imageInfo) list \<Rightarrow> (string \<times> imageInfo) list \<times> event list" where
  "timeoutEntries now st [] = ([], [])"
| "timeoutEntries now st ((imageId, imageInfo) # rest) =
     (let others = timeoutEntries now st rest in
      if now > lastPacketTime imageInfo + IMAGE_TIMEOUT then
        let checked = checkMissingPackets st imageId;
            missing = fst checked
        in
        if length missing > 0 then
          ((imageId, imageInfo\<lparr>lastPacketTime := now\<rparr>) # fst others,
           snd checked @
           [RetransmitLog Warning
              (ImageTimeout imageId (length (receivedChunks imageInfo)) (totalChunks imageInfo)
                 (length missing)),
            RetransmitLog Info
              (TimeoutMissing (slice 0 50 missing)
                 (if length missing \<le> 50 then None else Some (length missing - 50))),
            RetransmitLog Info
              (ManualRetransmit
                 (orElse (Some (filename imageInfo)) (fallbackFilename imageId))
                 (slice 0 4 missing))] @
           snd others)
        else ((imageId, imageInfo) # fst others, snd checked @ snd others)
      else ((imageId, imageInfo) # fst others, snd others))"

definition imageTimeoutCheck :: "nat \<Rightarrow> images \<Rightarrow> images \<times> event list" where
  "imageTimeoutCheck now st =
     (st\<lparr>imageReceptions := fst (timeoutEntries now st (imageReceptions st))\<rparr>,
      snd (timeoutEntries now st (imageReceptions st)))"

text \<open>The lines written to the transport, in order.\<close>

fun writtenLines :: "event list \<Rightarrow> string list" where
  "writtenLines [] = []"
| "writtenLines (Write line # evs) = line # writtenLines evs"
| "writtenLines (ev # evs) = writtenLines evs"

text \<open>
  The size of a batch that \<^verbatim>\<open>requestRetransmission\<close> computes for a file name of the
  given length.
\<close>

definition batchSize :: "nat \<Rightarrow> nat" where
  "batchSize nameLength = nat (max 1 ((int MAX_COMMAND_SIZE - int (12 + nameLength) - 1) div 5))"

section \<open>Properties of the telemetry decoder\<close>

lemma fixedSize_tags:
  "fixedSize tag = Some n \<Longrightarrow>
   tag \<in> set [''GYRO'', ''ACCL'', ''MAGN'', ''GRAV'', ''EULR'', ''BMED'', ''OBCR'', ''OBCD'', ''OBCC'',
     ''OBCL'', ''OBCP'', ''ADCS'', ''EPSS'', ''HOST'', ''SOLR'']"
  by (auto simp: fixedSize_def split: if_splits)

lemma trim_tag:
  "tag \<in> set [''GYRO'', ''ACCL'', ''MAGN'', ''GRAV'', ''EULR'', ''BMED'', ''OBCR'', ''OBCD'', ''OBCC'',
     ''OBCL'', ''OBCP'', ''ADCS'', ''EPSS'', ''HOST'', ''SOLR''] \<Longrightarrow> trim (removeNul tag) = tag"
  by (auto simp: trim_def removeNul_def isWhite_def code_def NUL_def)

lemma identifierOf_tag:
  assumes "fixedSize tag = Some n" and "slice 0 4 data = tag"
  shows "identifierOf data = tag"
  using trim_tag [OF fixedSize_tags [OF assms(1)]] assms(2) by (simp add: identifierOf_def)

text \<open>
  Claim C5. A frame that carries one of the fixed-size telemetry tags and is shorter than
  the size the table gives for that tag is answered with one warning naming the decoder
  and the frame's length; nothing else is logged (no telemetry record), and the decoder's
  state is returned unchanged, so the frame is dropped and leaves nothing behind to retry.
  The model has no exception branch: every function of the decoder is total.
\<close>

theorem short_fixed_frame_dropped:
  assumes "fixedSize tag = Some n" and "slice 0 4 data = tag" and "length data < n"
  shows "unpackCommand st data =
           (st, [Log Warning (InvalidPacketSize (reportedName tag) (length data))])"
proof -
  have id: "identifierOf data = tag"
    using assms(1,2) by (rule identifierOf_tag)
  have tags: "tag \<in> set [''GYRO'', ''ACCL'', ''MAGN'', ''GRAV'', ''EULR'', ''BMED'', ''OBCR'', ''OBCD'', ''OBCC'',
     ''OBCL'', ''OBCP'', ''ADCS'', ''EPSS'', ''HOST'', ''SOLR'']"
    using assms(1) by (rule fixedSize_tags)
  have "length tag = 4" using tags by auto
  then have len: "\<not> length data < 4"
    using assms(2) by (auto simp: slice_def)
  have unf: "unpackCommand st data =
     (if tag \<in> set [''GYRO'', ''ACCL'', ''MAGN'', ''GRAV'', ''EULR'']
        then (st, unpackSensorData tag data)
        else if tag = ''BMED'' then (st, unpackBMEData data)
        else if tag = ''POLL'' then unpackPollData st data
        else if tag \<in> set [''OBCR'', ''OBCD'', ''OBCC'']
        then (st, unpackOBCSingleValue tag data)
        else if tag = ''OBCL'' then (st, unpackOBCFileListing data)
        else if tag = ''OBCP'' then unpackOBCProcesses st data
        else if tag = ''ADCS'' then (st, unpackADCSData data)
        else if tag = ''EPSS'' then (st, unpackEPSStatus data)
        else if tag = ''HOST'' then (st, unpackHostname data)
        else if tag = ''SOLR'' then (st, unpackSolarData data)
        else if tag = ''RETX'' then (st, unpackRetransmitData data)
        else (st, [ConsoleDebugUnknown tag]))"
    using len by (simp add: unpackCommand_def id Let_def)
  from tags assms(1,3) show ?thesis
    unfolding unf
    apply (simp only: set_simps insert_iff empty_iff)
    apply (elim disjE)
    apply (simp_all add: fixedSize_def reportedName_def
        unpackSensorData_def unpackBMEData_def unpackOBCSingleValue_def
        unpackOBCFileListing_def unpackOBCProcesses_def unpackADCSData_def
        unpackEPSStatus_def unpackHostname_def unpackSolarData_def)
    done
qed

theorem short_fixed_frame_dropped_witness:
  "unpackCommand \<lparr>pollBuffer = [], obclDataArray = []\<rparr> ''GYROabcdefg'' =
     (\<lparr>pollBuffer = [], obclDataArray = []\<rparr>, [Log Warning (InvalidPacketSize ''GYRO'' 11)])"
  using short_fixed_frame_dropped [of "''GYRO''" 16 "''GYROabcdefg''" "\<lparr>pollBuffer = [], obclDataArray = []\<rparr>"]
  by (simp add: fixedSize_def slice_def reportedName_def)

lemma unpackCommand_POLL:
  assumes "slice 0 4 data = ''POLL''"
  shows "unpackCommand st data = unpackPollData st data"
proof -
  have "length (slice 0 4 data) = 4" using assms by simp
  then have len: "\<not> length data < 4" by (auto simp: slice_def)
  have "identifierOf data = ''POLL''"
    by (simp add: identifierOf_def assms trim_def removeNul_def isWhite_def code_def NUL_def)
  then show ?thesis using len by (simp add: unpackCommand_def)
qed

lemma unpackPollData_frame:
  assumes "length data = 8 + n" and "getUint32 data 4 = n"
  shows "unpackPollData st data =
     (if 64 \<le> length (pollBuffer st) + n
      then (st\<lparr>pollBuffer := []\<rparr>,
            Log Response PollHeader #
            map (\<lambda>i. Log Response (PollSensor (i + 1) (getFloat32 (pollBuffer st @ drop 8 data) (i * 4)))) [0..<16])
      else (st\<lparr>pollBuffer := pollBuffer st @ drop 8 data\<rparr>, []))"
  using assms by (simp add: unpackPollData_def slice_def Let_def)

lemma byte_of_word:
  assumes "a < 256" and "b < 256" and "c < 256" and "d < 256" and "k < 4"
  shows "unat (take_bit 8 (drop_bit (8 * k)
           (word_of_nat (a + 256 * b + 65536 * c + 16777216 * d) :: 32 word))) = [a, b, c, d] ! k"
proof -
  define m where "m = a + 256 * b + 65536 * c + 16777216 * d"
  define w :: "32 word" where "w = word_of_nat m"
  have m: "m < 4294967296" using assms(1-4) unfolding m_def by linarith
  have "unat w = m mod 2 ^ LENGTH(32)"
    unfolding w_def by (rule unat_of_nat)
  also have "\<dots> = m" using m by simp
  finally have u: "unat w = m" .
  define q2 where "q2 = c + 256 * d"
  define q1 where "q1 = b + 256 * q2"
  have m1: "m = a + 256 * q1" unfolding m_def q1_def q2_def by simp
  have r0: "m mod 256 = a" and d1: "m div 256 = q1"
    unfolding m1 using assms(1) by simp_all
  have r1: "q1 mod 256 = b" and d2: "q1 div 256 = q2"
    unfolding q1_def using assms(2) by simp_all
  have r2: "q2 mod 256 = c" and d3: "q2 div 256 = d"
    unfolding q2_def using assms(3) by simp_all
  have r3: "d mod 256 = d" using assms(4) by simp
  have "m div 65536 = m div 256 div 256" by (simp add: div_mult2_eq [symmetric])
  then have e2: "m div 65536 = q2" by (simp only: d1 d2)
  have "m div 16777216 = m div 65536 div 256" by (simp add: div_mult2_eq [symmetric])
  then have e3: "m div 16777216 = d" by (simp only: e2 d3)
  have "unat (take_bit 8 (drop_bit (8 * k) w)) = take_bit 8 (unat (drop_bit (8 * k) w))"
    by (rule unsigned_take_bit_eq)
  also have "\<dots> = take_bit 8 (drop_bit (8 * k) m)"
    by (simp only: unat_drop_bit_eq u)
  also have "\<dots> = (m div 2 ^ (8 * k)) mod 256"
    by (simp add: take_bit_eq_mod drop_bit_eq_div)
  also have "\<dots> = [a, b, c, d] ! k"
  proof -
    from assms(5) consider "k = 0" | "k = 1" | "k = 2" | "k = 3" by linarith
    then show ?thesis
    proof cases
      case 1
      then show ?thesis using r0 by simp
    next
      case 2
      then show ?thesis using d1 r1 by simp
    next
      case 3
      then show ?thesis using e2 r2 by simp
    next
      case 4
      then show ?thesis using e3 r3 by simp
    qed
  qed
  finally show ?thesis unfolding w_def m_def .
qed

lemma code_less: "code c < 256"
  by (simp add: code_def)

lemma getFloat32_bytes:
  assumes "k < 4"
  shows "unat (take_bit 8 (drop_bit (8 * k) (getFloat32 data off))) = code (data ! (off + k))"
proof -
  from assms consider "k = 0" | "k = 1" | "k = 2" | "k = 3" by linarith
  then have "[code (data ! off), code (data ! (off + 1)), code (data ! (off + 2)),
              code (data ! (off + 3))] ! k = code (data ! (off + k))"
    by cases simp_all
  then show ?thesis
    unfolding getFloat32_def getUint32_def
    using byte_of_word [OF code_less code_less code_less code_less assms] by simp
qed

text \<open>
  Claim C6. From an empty poll buffer, a POLL frame with a 40-byte payload logs nothing
  and leaves its payload in the buffer; a second POLL frame with a 24-byte payload then
  logs the header and 16 values and leaves the buffer empty. Value \<open>i\<close> is the 32-bit
  pattern read little-endian from the 64 accumulated payload bytes in order: its byte
  \<open>k\<close>, counted from the least significant, is byte \<open>4 i + k\<close> of the first payload
  followed by the second.
\<close>

theorem poll_accumulates:
  assumes "length p1 = 40" and "length p2 = 24"
  shows "unpackCommand \<lparr>pollBuffer = [], obclDataArray = arr\<rparr>
           (''POLL'' @ [CHR 0x28, CHR 0x00, CHR 0x00, CHR 0x00] @ p1) =
           (\<lparr>pollBuffer = p1, obclDataArray = arr\<rparr>, []) \<and>
         unpackCommand \<lparr>pollBuffer = p1, obclDataArray = arr\<rparr>
           (''POLL'' @ [CHR 0x18, CHR 0x00, CHR 0x00, CHR 0x00] @ p2) =
           (\<lparr>pollBuffer = [], obclDataArray = arr\<rparr>,
            Log Response PollHeader #
            map (\<lambda>i. Log Response (PollSensor (i + 1) (getFloat32 (p1 @ p2) (i * 4)))) [0..<16]) \<and>
         (\<forall>i < 16. \<forall>k < 4.
            unat (take_bit 8 (drop_bit (8 * k) (getFloat32 (p1 @ p2) (i * 4)))) =
              code ((p1 @ p2) ! (i * 4 + k)))"
proof -
  define f1 where "f1 = ''POLL'' @ [CHR 0x28, CHR 0x00, CHR 0x00, CHR 0x00] @ p1"
  define f2 where "f2 = ''POLL'' @ [CHR 0x18, CHR 0x00, CHR 0x00, CHR 0x00] @ p2"
  have t1: "slice 0 4 f1 = ''POLL''" and t2: "slice 0 4 f2 = ''POLL''"
    by (simp_all add: f1_def f2_def slice_def)
  have n1: "getUint32 f1 4 = 40" and n2: "getUint32 f2 4 = 24"
    by (simp_all add: f1_def f2_def getUint32_def code_def)
  have k1: "length f1 = 8 + 40" and k2: "length f2 = 8 + 24"
    using assms by (simp_all add: f1_def f2_def)
  have d1: "drop 8 f1 = p1" and d2: "drop 8 f2 = p2"
    by (simp_all add: f1_def f2_def)
  have a: "unpackCommand \<lparr>pollBuffer = [], obclDataArray = arr\<rparr> f1 =
             (\<lparr>pollBuffer = p1, obclDataArray = arr\<rparr>, [])"
    by (simp add: unpackCommand_POLL [OF t1] unpackPollData_frame [OF k1 n1] d1)
  have b: "unpackCommand \<lparr>pollBuffer = p1, obclDataArray = arr\<rparr> f2 =
             (\<lparr>pollBuffer = [], obclDataArray = arr\<rparr>,
              Log Response PollHeader #
              map (\<lambda>i. Log Response (PollSensor (i + 1) (getFloat32 (p1 @ p2) (i * 4)))) [0..<16])"
    using assms(1) by (simp add: unpackCommand_POLL [OF t2] unpackPollData_frame [OF k2 n2] d2)
  show ?thesis using a b getFloat32_bytes unfolding f1_def f2_def by blast
qed

theorem poll_accumulates_witness:
  "unpackCommand \<lparr>pollBuffer = [], obclDataArray = []\<rparr>
     (''POLL'' @ [CHR 0x28, CHR 0x00, CHR 0x00, CHR 0x00] @
      [CHR 0x00, CHR 0x01, CHR 0x02, CHR 0x03, CHR 0x04, CHR 0x05, CHR 0x06, CHR 0x07,
      CHR 0x08, CHR 0x09, CHR 0x0A, CHR 0x0B, CHR 0x0C, CHR 0x0D, CHR 0x0E, CHR 0x0F,
      CHR 0x10, CHR 0x11, CHR 0x12, CHR 0x13, CHR 0x14, CHR 0x15, CHR 0x16, CHR 0x17,
      CHR 0x18, CHR 0x19, CHR 0x1A, CHR 0x1B, CHR 0x1C, CHR 0x1D, CHR 0x1E, CHR 0x1F,
      CHR 0x20, CHR 0x21, CHR 0x22, CHR 0x23, CHR 0x24, CHR 0x25, CHR 0x26, CHR 0x27]) =
     (\<lparr>pollBuffer =
        [CHR 0x00, CHR 0x01, CHR 0x02, CHR 0x03, CHR 0x04, CHR 0x05, CHR 0x06, CHR 0x07,
        CHR 0x08, CHR 0x09, CHR 0x0A, CHR 0x0B, CHR 0x0C, CHR 0x0D, CHR 0x0E, CHR 0x0F,
        CHR 0x10, CHR 0x11, CHR 0x12, CHR 0x13, CHR 0x14, CHR 0x15, CHR 0x16, CHR 0x17,
        CHR 0x18, CHR 0x19, CHR 0x1A, CHR 0x1B, CHR 0x1C, CHR 0x1D, CHR 0x1E, CHR 0x1F,
        CHR 0x20, CHR 0x21, CHR 0x22, CHR 0x23, CHR 0x24, CHR 0x25, CHR 0x26, CHR 0x27],
       obclDataArray = []\<rparr>, []) \<and>
   unpackCommand
     \<lparr>pollBuffer =
        [CHR 0x00, CHR 0x01, CHR 0x02, CHR 0x03, CHR 0x04, CHR 0x05, CHR 0x06, CHR 0x07,
        CHR 0x08, CHR 0x09, CHR 0x0A, CHR 0x0B, CHR 0x0C, CHR 0x0D, CHR 0x0E, CHR 0x0F,
        CHR 0x10, CHR 0x11, CHR 0x12, CHR 0x13, CHR 0x14, CHR 0x15, CHR 0x16, CHR 0x17,
        CHR 0x18, CHR 0x19, CHR 0x1A, CHR 0x1B, CHR 0x1C, CHR 0x1D, CHR 0x1E, CHR 0x1F,
        CHR 0x20, CHR 0x21, CHR 0x22, CHR 0x23, CHR 0x24, CHR 0x25, CHR 0x26, CHR 0x27],
      obclDataArray = []\<rparr>
     (''POLL'' @ [CHR 0x18, CHR 0x00, CHR 0x00, CHR 0x00] @
      [CHR 0x28, CHR 0x29, CHR 0x2A, CHR 0x2B, CHR 0x2C, CHR 0x2D, CHR 0x2E, CHR 0x2F,
      CHR 0x30, CHR 0x31, CHR 0x32, CHR 0x33, CHR 0x34, CHR 0x35, CHR 0x36, CHR 0x37,
      CHR 0x38, CHR 0x39, CHR 0x3A, CHR 0x3B, CHR 0x3C, CHR 0x3D, CHR 0x3E, CHR 0x3F]) =
     (\<lparr>pollBuffer = [], obclDataArray = []\<rparr>,
      [Log Response PollHeader,
       Log Response (PollSensor 1 0x03020100),
       Log Response (PollSensor 2 0x07060504),
       Log Response (PollSensor 3 0x0B0A0908),
       Log Response (PollSensor 4 0x0F0E0D0C),
       Log Response (PollSensor 5 0x13121110),
       Log Response (PollSensor 6 0x17161514),
       Log Response (PollSensor 7 0x1B1A1918),
       Log Response (PollSensor 8 0x1F1E1D1C),
       Log Response (PollSensor 9 0x23222120),
       Log Response (PollSensor 10 0x27262524),
       Log Response (PollSensor 11 0x2B2A2928),
       Log Response (PollSensor 12 0x2F2E2D2C),
       Log Response (PollSensor 13 0x33323130),
       Log Response (PollSensor 14 0x37363534),
       Log Response (PollSensor 15 0x3B3A3938),
       Log Response (PollSensor 16 0x3F3E3D3C)])"
proof -
  let ?p1 = "[CHR 0x00, CHR 0x01, CHR 0x02, CHR 0x03, CHR 0x04, CHR 0x05, CHR 0x06, CHR 0x07,
             CHR 0x08, CHR 0x09, CHR 0x0A, CHR 0x0B, CHR 0x0C, CHR 0x0D, CHR 0x0E, CHR 0x0F,
             CHR 0x10, CHR 0x11, CHR 0x12, CHR 0x13, CHR 0x14, CHR 0x15, CHR 0x16, CHR 0x17,
             CHR 0x18, CHR 0x19, CHR 0x1A, CHR 0x1B, CHR 0x1C, CHR 0x1D, CHR 0x1E, CHR 0x1F,
             CHR 0x20, CHR 0x21, CHR 0x22, CHR 0x23, CHR 0x24, CHR 0x25, CHR 0x26, CHR 0x27]"
  let ?p2 = "[CHR 0x28, CHR 0x29, CHR 0x2A, CHR 0x2B, CHR 0x2C, CHR 0x2D, CHR 0x2E, CHR 0x2F,
             CHR 0x30, CHR 0x31, CHR 0x32, CHR 0x33, CHR 0x34, CHR 0x35, CHR 0x36, CHR 0x37,
             CHR 0x38, CHR 0x39, CHR 0x3A, CHR 0x3B, CHR 0x3C, CHR 0x3D, CHR 0x3E, CHR 0x3F]"
  let ?p = "[CHR 0x00, CHR 0x01, CHR 0x02, CHR 0x03, CHR 0x04, CHR 0x05, CHR 0x06, CHR 0x07,
            CHR 0x08, CHR 0x09, CHR 0x0A, CHR 0x0B, CHR 0x0C, CHR 0x0D, CHR 0x0E, CHR 0x0F,
            CHR 0x10, CHR 0x11, CHR 0x12, CHR 0x13, CHR 0x14, CHR 0x15, CHR 0x16, CHR 0x17,
            CHR 0x18, CHR 0x19, CHR 0x1A, CHR 0x1B, CHR 0x1C, CHR 0x1D, CHR 0x1E, CHR 0x1F,
            CHR 0x20, CHR 0x21, CHR 0x22, CHR 0x23, CHR 0x24, CHR 0x25, CHR 0x26, CHR 0x27,
            CHR 0x28, CHR 0x29, CHR 0x2A, CHR 0x2B, CHR 0x2C, CHR 0x2D, CHR 0x2E, CHR 0x2F,
            CHR 0x30, CHR 0x31, CHR 0x32, CHR 0x33, CHR 0x34, CHR 0x35, CHR 0x36, CHR 0x37,
            CHR 0x38, CHR 0x39, CHR 0x3A, CHR 0x3B, CHR 0x3C, CHR 0x3D, CHR 0x3E, CHR 0x3F]"
  have h1: "length ?p1 = 40" and h2: "length ?p2 = 24" by simp_all
  have u: "[0..<16] = [0, 1, 2, 3, 4, 5, 6, 7, 8, 9, 10, 11, 12, 13, 14, 15::nat]"
    by code_simp
  have v:
    "getFloat32 ?p 0 = 0x03020100"
    "getFloat32 ?p 4 = 0x07060504"
    "getFloat32 ?p 8 = 0x0B0A0908"
    "getFloat32 ?p 12 = 0x0F0E0D0C"
    "getFloat32 ?p 16 = 0x13121110"
    "getFloat32 ?p 20 = 0x17161514"
    "getFloat32 ?p 24 = 0x1B1A1918"
    "getFloat32 ?p 28 = 0x1F1E1D1C"
    "getFloat32 ?p 32 = 0x23222120"
    "getFloat32 ?p 36 = 0x27262524"
    "getFloat32 ?p 40 = 0x2B2A2928"
    "getFloat32 ?p 44 = 0x2F2E2D2C"
    "getFloat32 ?p 48 = 0x33323130"
    "getFloat32 ?p 52 = 0x37363534"
    "getFloat32 ?p 56 = 0x3B3A3938"
    "getFloat32 ?p 60 = 0x3F3E3D3C"
    by (simp_all add: getFloat32_def getUint32_def code_def)
  from poll_accumulates [OF h1 h2, of "[]"] show ?thesis
    unfolding u by (simp add: v)
qed

section \<open>Properties of the frame classifier\<close>

lemma dropWhile_same_length: "length (dropWhile P xs) = length xs \<Longrightarrow> dropWhile P xs = xs"
proof -
  assume a: "length (dropWhile P xs) = length xs"
  have "length (takeWhile P xs) + length (dropWhile P xs) = length xs"
    by (metis length_append takeWhile_dropWhile_id)
  with a have "takeWhile P xs = []" by simp
  then show ?thesis by (metis append_Nil takeWhile_dropWhile_id)
qed

lemma filter_same_length: "length (filter P xs) = length xs \<Longrightarrow> filter P xs = xs"
  by (metis length_filter_less nat_neq_iff filter_True)

lemma trim_length: "length (trim s) \<le> length s"
  unfolding trim_def
  by (metis length_rev length_dropWhile_le le_trans)

lemma trim_same_length: "length (trim s) = length s \<Longrightarrow> trim s = s"
proof -
  assume a: "length (trim s) = length s"
  have 1: "length (dropWhile isWhite (rev (dropWhile isWhite s))) \<le> length (dropWhile isWhite s)"
    by (metis length_dropWhile_le length_rev)
  have 2: "length (dropWhile isWhite s) \<le> length s" by (rule length_dropWhile_le)
  from a 1 2 have e: "length (dropWhile isWhite s) = length s" by (simp add: trim_def)
  then have d: "dropWhile isWhite s = s" by (rule dropWhile_same_length)
  from a have "length (dropWhile isWhite (rev s)) = length (rev s)" by (simp add: trim_def d)
  then have "dropWhile isWhite (rev s) = rev s" by (rule dropWhile_same_length)
  then show ?thesis by (simp add: trim_def d)
qed

lemma identifierOf_exact:
  assumes "identifierOf b = t" and "length t = 4"
  shows "slice 0 4 b = t"
proof -
  let ?x = "slice 0 4 b"
  have lx: "length ?x \<le> 4" by (simp add: slice_def)
  have "length (trim (removeNul ?x)) = 4" using assms by (simp add: identifierOf_def)
  moreover have "length (trim (removeNul ?x)) \<le> length (removeNul ?x)" by (rule trim_length)
  moreover have "length (removeNul ?x) \<le> length ?x" by (simp add: removeNul_def)
  ultimately have e: "length (removeNul ?x) = length ?x" "length (trim (removeNul ?x)) = length (removeNul ?x)"
    using lx by linarith+
  from e(1) have "removeNul ?x = ?x" unfolding removeNul_def by (rule filter_same_length)
  moreover from e(2) have "trim (removeNul ?x) = removeNul ?x" by (rule trim_same_length)
  ultimately show ?thesis using assms(1) by (simp add: identifierOf_def)
qed

lemma findNewline_None: "\<forall>c \<in> set xs. \<not> isNewline c \<Longrightarrow> findNewline i xs = None"
  by (induction xs arbitrary: i) auto

text \<open>
  Claim C8. When the accumulated buffer (what was left over plus the new delivery) is
  longer than 1024 bytes and no frame can be identified in it, that is: it contains no
  line terminator, its first four bytes are not a telemetry identifier or RETX, and if
  they are SEND the packet scan finds no packet end behind the tag, then
  \<^verbatim>\<open>processReceivedData\<close> hands on the overflow warning only and leaves the buffer
  empty.
\<close>

theorem overflow_discards_buffer:
  assumes "length (dataBuffer @ data) > 1024"
    and "\<forall>c \<in> set (dataBuffer @ data). \<not> isNewline c"
    and "slice 0 4 (dataBuffer @ data) \<notin> set binaryIdentifiers"
    and "slice 0 4 (dataBuffer @ data) = ''SEND'' \<longrightarrow>
           scanPacketEnd 4 1024 (drop 4 (dataBuffer @ data)) \<in> {None, Some 4}"
  shows "processReceivedData dataBuffer data = ([Overflow], [])"
proof -
  define b where "b = dataBuffer @ data"
  note h = assms [folded b_def]
  have notbin: "identifierOf b \<notin> set binaryIdentifiers"
  proof
    assume m: "identifierOf b \<in> set binaryIdentifiers"
    then have "length (identifierOf b) = 4"
      by (auto simp: binaryIdentifiers_def telemetryIds_def)
    then have "slice 0 4 b = identifierOf b" by (simp add: identifierOf_exact)
    with m h(3) show False by simp
  qed
  then have notretx: "identifierOf b \<noteq> ''RETX''"
    by (auto simp: binaryIdentifiers_def)
  have img: "imageBranch b = Fallthrough"
  proof (cases "identifierOf b = ''SEND''")
    case True
    then have "slice 0 4 b = ''SEND''" by (simp add: identifierOf_exact)
    with h(4) have "scanPacketEnd 4 1024 (drop 4 b) \<in> {None, Some 4}" by simp
    then show ?thesis using h(1) True
      by (auto simp: imageBranch_def Let_def)
  next
    case False
    then show ?thesis using notretx by (simp add: imageBranch_def Let_def)
  qed
  have bin: "binaryBranch b = Fallthrough"
    using notbin by (simp add: binaryBranch_def Let_def)
  have tb: "textBranch b = Stop [Overflow] []"
    using h(1) findNewline_None [OF h(2)] by (simp add: textBranch_def)
  have "b \<noteq> []" using h(1) by auto
  then have "classify b = ([Overflow], [])"
    by (subst classify.simps) (simp add: loopBody_def img bin tb)
  then show ?thesis by (simp add: processReceivedData_def b_def)
qed

theorem overflow_discards_buffer_witness:
  "processReceivedData (replicate 1000 (CHR ''x'')) (replicate 25 (CHR ''x'')) = ([Overflow], [])"
proof -
  let ?b = "replicate 1000 (CHR ''x'') @ replicate 25 (CHR ''x'')"
  have s: "slice 0 4 ?b = ''xxxx''"
    by (simp add: slice_def numeral_eq_Suc)
  have 1: "length ?b > 1024" by simp
  have 2: "\<forall>c \<in> set ?b. \<not> isNewline c" by (simp add: isNewline_def LF_def CR_def)
  have 3: "slice 0 4 ?b \<notin> set binaryIdentifiers"
    unfolding s by (simp add: binaryIdentifiers_def telemetryIds_def)
  have 4: "slice 0 4 ?b = ''SEND'' \<longrightarrow> scanPacketEnd 4 1024 (drop 4 ?b) \<in> {None, Some 4}"
    unfolding s by simp
  show ?thesis by (rule overflow_discards_buffer [OF 1 2 3 4])
qed

text \<open>
  Claim C1 fails as stated. The stream \<^verbatim>\<open>SENDAAAA00010000\\n\<close> is one image chunk
  (total 1, index 0). Delivered whole it gives that one image packet. Delivered as
  \<^verbatim>\<open>SENDAAAA\<close> and then the rest, the first delivery finds no terminator in a buffer
  shorter than 1024 bytes and takes the whole buffer as the packet (the branch the source
  keeps for short replies such as \<^verbatim>\<open>SENDroot\<close>); the rest then arrives as a text line.
\<close>

theorem chunk_split_counterexample:
  "deliveries [] [''SENDAAAA00010000'' @ [LF]] = ([ImageChunk ''SENDAAAA00010000''], []) \<and>
   deliveries [] [''SENDAAAA'', ''00010000'' @ [LF]] =
     ([ImageChunk ''SENDAAAA'', TextLine ''00010000''], []) \<and>
   concat [''SENDAAAA'', ''00010000'' @ [LF]] = concat [''SENDAAAA00010000'' @ [LF]] \<and>
   fst (deliveries [] [''SENDAAAA'', ''00010000'' @ [LF]]) \<noteq>
     fst (deliveries [] [''SENDAAAA00010000'' @ [LF]])"
  by code_simp

lemma fixedSize_cases:
  "fixedSize tag = Some n \<Longrightarrow>
   (tag, n) \<in> set [(''GYRO'', 16), (''ACCL'', 16), (''MAGN'', 16), (''GRAV'', 16), (''EULR'', 16),
     (''BMED'', 16), (''OBCR'', 8), (''OBCD'', 8), (''OBCC'', 8), (''OBCL'', 234), (''OBCP'', 234),
     (''ADCS'', 32), (''EPSS'', 28), (''HOST'', 15), (''SOLR'', 36)]"
  by (auto simp: fixedSize_def split: if_splits)

lemma fixedSize_binary:
  assumes "fixedSize tag = Some n"
  shows "tag \<in> set binaryIdentifiers"
  using fixedSize_cases [OF assms] by (auto simp: binaryIdentifiers_def telemetryIds_def)

lemma fixedSize_not_image:
  assumes "fixedSize tag = Some n"
  shows "tag \<noteq> ''SEND'' \<and> tag \<noteq> ''RETX''"
  using fixedSize_cases [OF assms] by auto

lemma fixedSize_getPacketSize:
  assumes "fixedSize tag = Some n"
  shows "getPacketSize b tag = int n"
  using fixedSize_cases [OF assms]
  apply (simp only: list.set insert_iff empty_iff prod.inject)
  apply (elim disjE conjE)
  apply (simp_all add: getPacketSize_def packetSizes_def)
  done

lemma fixedSize_ge:
  assumes "fixedSize tag = Some n"
  shows "8 \<le> n \<and> length tag = 4"
  using fixedSize_cases [OF assms] by auto

lemma fixedSize_no_newline:
  assumes "fixedSize tag = Some n"
  shows "\<forall>c \<in> set tag. \<not> isNewline c"
  using fixedSize_cases [OF assms] by (auto simp: isNewline_def LF_def CR_def)

lemma fixedSize_identifier:
  assumes "fixedSize (slice 0 4 b) = Some n"
  shows "identifierOf b = slice 0 4 b"
  using trim_tag [OF fixedSize_tags [OF assms]] by (simp add: identifierOf_def)

text \<open>A buffer that starts with a whole fixed-size frame: the frame is extracted.\<close>

lemma loopBody_fixedFrame:
  assumes "fixedFrame g"
  shows "loopBody (g @ rest) = Continue [BinaryTelemetry g] rest"
proof -
  let ?b = "g @ rest"
  let ?tag = "slice 0 4 g"
  from assms have fs: "fixedSize ?tag = Some (length g)" by (simp add: fixedFrame_def)
  from fixedSize_ge [OF fs] have len: "8 \<le> length g" by simp
  then have tag: "slice 0 4 ?b = ?tag" by (simp add: slice_def)
  have id: "identifierOf ?b = ?tag"
    using fixedSize_identifier [of ?b "length g"] fs tag by simp
  have img: "imageBranch ?b = Fallthrough"
    using fixedSize_not_image [OF fs] by (simp add: imageBranch_def id Let_def)
  have bin: "binaryBranch ?b = Continue [BinaryTelemetry g] rest"
    using fixedSize_binary [OF fs] fixedSize_getPacketSize [OF fs, of ?b] len
    by (auto simp: binaryBranch_def id Let_def slice_def)
  show ?thesis by (simp add: loopBody_def img bin)
qed

text \<open>A buffer that is a proper beginning of a fixed-size frame: the loop waits.\<close>

lemma loopBody_partialFrame:
  assumes "fixedFrame f" and "strict_prefix r f"
  shows "loopBody r = Stop [] r"
proof -
  let ?tag = "slice 0 4 f"
  from assms have fs: "fixedSize ?tag = Some (length f)" by (simp add: fixedFrame_def)
  from assms(2) obtain s where f: "f = r @ s" and s: "s \<noteq> []"
    by (auto simp: strict_prefix_def prefix_def)
  have short: "length r < length f" using f s by simp
  show ?thesis
  proof (cases "length r < 4")
    case True
    have "set r \<subseteq> set ?tag"
      using True f by (auto simp: slice_def set_take_subset intro: in_set_takeD) 
    then have nn: "\<forall>c \<in> set r. \<not> isNewline c"
      using fixedSize_no_newline [OF fs] by blast
    have "length r \<le> 1024" using True by simp
    then have tb: "textBranch r = Stop [] r"
      using findNewline_None [OF nn] by (simp add: textBranch_def)
    have img: "imageBranch r = Fallthrough" using True by (simp add: imageBranch_def)
    have bin: "binaryBranch r = Fallthrough" using True by (simp add: binaryBranch_def)
    show ?thesis by (simp add: loopBody_def img bin tb)
  next
    case False
    then have tag: "slice 0 4 r = ?tag" using f by (simp add: slice_def)
    have id: "identifierOf r = ?tag"
      using fixedSize_identifier [of r "length f"] fs tag by simp
    have img: "imageBranch r = Fallthrough"
      using fixedSize_not_image [OF fs] by (simp add: imageBranch_def id Let_def)
    have bin: "binaryBranch r = Stop [] r"
      using fixedSize_binary [OF fs] fixedSize_getPacketSize [OF fs, of r] short False
        fixedSize_ge [OF fs]
      by (auto simp: binaryBranch_def id Let_def)
    show ?thesis by (simp add: loopBody_def img bin)
  qed
qed

lemma classify_partialFrame:
  assumes "partialFrame r"
  shows "classify r = ([], r)"
proof (cases "r = []")
  case True
  then show ?thesis by (simp add: classify.simps)
next
  case False
  with assms obtain f where "fixedFrame f" "strict_prefix r f"
    by (auto simp: partialFrame_def)
  then have "loopBody r = Stop [] r" by (rule loopBody_partialFrame)
  then show ?thesis using False by (subst classify.simps) simp
qed

lemma classify_fixedFrames:
  assumes "\<forall>f \<in> set gs. fixedFrame f" and "partialFrame r"
  shows "classify (concat gs @ r) = (map BinaryTelemetry gs, r)"
  using assms(1)
proof (induction gs)
  case Nil
  then show ?case using classify_partialFrame [OF assms(2)] by simp
next
  case (Cons g gs)
  then have g: "fixedFrame g" and ih: "classify (concat gs @ r) = (map BinaryTelemetry gs, r)"
    by simp_all
  have ne: "g @ concat gs @ r \<noteq> []"
    using g fixedSize_ge [of "slice 0 4 g" "length g"] by (auto simp: fixedFrame_def)
  have "classify (g @ concat gs @ r) = (BinaryTelemetry g # map BinaryTelemetry gs, r)"
    using ne by (subst classify.simps) (simp add: loopBody_fixedFrame [OF g] ih)
  then show ?case by simp
qed

lemma partialFrame_prefix:
  assumes "partialFrame r" and "prefix x r"
  shows "partialFrame x"
proof (cases "x = []")
  case True
  then show ?thesis by (simp add: partialFrame_def)
next
  case False
  with assms(2) have "r \<noteq> []" by auto
  with assms(1) obtain f where f: "fixedFrame f" "strict_prefix r f"
    by (auto simp: partialFrame_def)
  from assms(2) f(2) have "strict_prefix x f"
    using prefix_order.le_less_trans by blast
  with f(1) show ?thesis by (auto simp: partialFrame_def)
qed

lemma split_stream:
  assumes "\<forall>f \<in> set gs. fixedFrame f" and "partialFrame r" and "x @ y = concat gs @ r"
  shows "\<exists>gs1 gs2 r1. gs = gs1 @ gs2 \<and> x = concat gs1 @ r1 \<and> partialFrame r1 \<and>
           r1 @ y = concat gs2 @ r"
  using assms(1,3)
proof (induction gs arbitrary: x)
  case Nil
  then have "prefix x r" by (auto simp: prefix_def)
  then have "partialFrame x" using assms(2) partialFrame_prefix by blast
  with Nil show ?case by auto
next
  case (Cons g gs)
  then have g: "fixedFrame g" and all: "\<forall>f \<in> set gs. fixedFrame f" by simp_all
  from Cons.prems(2) have eq: "x @ y = g @ concat gs @ r" by simp
  show ?case
  proof (cases "length x < length g")
    case True
    with eq have "strict_prefix x g"
      by (metis append_eq_append_conv_if append_take_drop_id less_imp_le_nat
          nat_less_le prefixI strict_prefix_def take_all_iff)
    with g have "partialFrame x" by (auto simp: partialFrame_def)
    then have "g # gs = [] @ (g # gs) \<and> x = concat [] @ x \<and> partialFrame x \<and>
        x @ y = concat (g # gs) @ r"
      using eq by simp
    then show ?thesis by blast
  next
    case False
    with eq obtain x' where x: "x = g @ x'" and rest: "x' @ y = concat gs @ r"
      by (metis append_eq_append_conv_if append_take_drop_id not_less append_assoc same_append_eq)
    from Cons.IH [OF all rest] obtain gs1 gs2 r1 where
      "gs = gs1 @ gs2" "x' = concat gs1 @ r1" "partialFrame r1" "r1 @ y = concat gs2 @ r"
      by blast
    then have "g # gs = (g # gs1) @ gs2 \<and> x = concat (g # gs1) @ r1 \<and> partialFrame r1 \<and>
        r1 @ y = concat gs2 @ r"
      using x by simp
    then show ?thesis by blast
  qed
qed

lemma partialFrame_no_frame:
  assumes "partialFrame b" and "fixedFrame g" and "prefix g b"
  shows False
proof -
  from assms(2) have fg: "fixedSize (slice 0 4 g) = Some (length g)" by (simp add: fixedFrame_def)
  from fixedSize_ge [OF fg] have lg: "8 \<le> length g" by simp
  with assms(3) have "b \<noteq> []" by auto
  with assms(1) obtain f where f: "fixedFrame f" "strict_prefix b f"
    by (auto simp: partialFrame_def)
  from assms(3) f(2) have sp: "strict_prefix g f"
    using prefix_order.le_less_trans by blast
  then obtain s where fs: "f = g @ s" "s \<noteq> []"
    by (auto simp: strict_prefix_def prefix_def)
  then have "slice 0 4 f = slice 0 4 g" using lg by (simp add: slice_def)
  with f(1) fg have "length f = length g" by (simp add: fixedFrame_def)
  with fs show False by simp
qed

lemma deliveries_fixedFrames:
  assumes "\<forall>f \<in> set gs. fixedFrame f" and "partialFrame r" and "partialFrame b"
    and "b @ concat ds = concat gs @ r"
  shows "deliveries b ds = (map BinaryTelemetry gs, r)"
  using assms(1,3,4)
proof (induction ds arbitrary: b gs)
  case Nil
  have "gs = []"
  proof (cases gs)
    case (Cons g gs')
    with Nil.prems have "fixedFrame g" "prefix g b" by (auto simp: prefix_def)
    with Nil.prems(2) show ?thesis using partialFrame_no_frame by blast
  qed simp
  with Nil.prems show ?case by simp
next
  case (Cons d ds)
  from Cons.prems(3) have "(b @ d) @ concat ds = concat gs @ r" by simp
  from split_stream [OF Cons.prems(1) assms(2) this] obtain gs1 gs2 r1 where
    s: "gs = gs1 @ gs2" "b @ d = concat gs1 @ r1" "partialFrame r1" "r1 @ concat ds = concat gs2 @ r"
    by blast
  from s(1) Cons.prems(1) have a1: "\<forall>f \<in> set gs1. fixedFrame f" and a2: "\<forall>f \<in> set gs2. fixedFrame f"
    by auto
  have p: "processReceivedData b d = (map BinaryTelemetry gs1, r1)"
    using classify_fixedFrames [OF a1 s(3)] by (simp add: processReceivedData_def s(2))
  have "deliveries r1 ds = (map BinaryTelemetry gs2, r)"
    by (rule Cons.IH [OF a2 s(3) s(4)])
  then show ?case by (simp add: p s(1))
qed

text \<open>
  Claim C1, amended. For a byte stream that is a concatenation of complete fixed-size
  telemetry frames, every split of the stream into successive deliveries hands on the
  same frames, in the same order, as the single delivery of the whole stream: the frames
  themselves, each as one binary packet, with nothing left in the buffer.
\<close>

theorem fixed_frames_chunk_independent:
  assumes "\<forall>f \<in> set fs. fixedFrame f" and "concat ds = concat fs"
  shows "deliveries [] ds = deliveries [] [concat fs] \<and>
         deliveries [] ds = (map BinaryTelemetry fs, [])"
proof -
  have e: "partialFrame []" by (simp add: partialFrame_def)
  have a: "deliveries [] ds = (map BinaryTelemetry fs, [])"
    using deliveries_fixedFrames [OF assms(1) e e, of ds] assms(2) by simp
  have b: "deliveries [] [concat fs] = (map BinaryTelemetry fs, [])"
    using deliveries_fixedFrames [OF assms(1) e e, of "[concat fs]"] by simp
  show ?thesis using a b by simp
qed

theorem fixed_frames_chunk_independent_witness:
  "deliveries [] [''GY'', ''RO0123456789abOB'', ''CRwxyz''] =
     deliveries [] [concat [''GYRO0123456789ab'', ''OBCRwxyz'']] \<and>
   deliveries [] [''GY'', ''RO0123456789abOB'', ''CRwxyz''] =
     (map BinaryTelemetry [''GYRO0123456789ab'', ''OBCRwxyz''], [])"
proof -
  have 1: "\<forall>f \<in> set [''GYRO0123456789ab'', ''OBCRwxyz'']. fixedFrame f"
    by (simp add: fixedFrame_def fixedSize_def slice_def)
  have 2: "concat [''GY'', ''RO0123456789abOB'', ''CRwxyz''] = concat [''GYRO0123456789ab'', ''OBCRwxyz'']"
    by simp
  show ?thesis by (rule fixed_frames_chunk_independent [OF 1 2])
qed

section \<open>Properties of the image reassembler\<close>

lemma validEndLoop_le: "i \<le> ve \<Longrightarrow> validEndLoop p i ve \<le> ve"
proof (induction i arbitrary: ve)
  case 0
  then show ?case by simp
next
  case (Suc j)
  have "validEndLoop p j (Suc j) \<le> Suc j" by (rule Suc.IH) simp
  with Suc.prems show ?case by simp
qed

lemma validEndOf_le: "validEndOf p \<le> length p"
  unfolding validEndOf_def by (rule validEndLoop_le) simp

lemma validEndOf_last_valid:
  assumes "5 \<le> length p" and "isValid (p ! (length p - 1))"
  shows "validEndOf p = length p"
proof -
  from assms(1) obtain j where j: "length p - 1 = Suc j" "\<not> Suc j < 4"
    by (cases "length p - 1") auto
  with assms(2) show ?thesis by (simp add: validEndOf_def)
qed

lemma no_plain_findOrCreate:
  "\<not> list_ex isPlainResponse (snd (snd (findOrCreateImageReception now st imageId t c)))"
  by (simp add: findOrCreateImageReception_def Let_def split: option.splits prod.splits)

lemma no_plain_complete:
  "\<not> list_ex isPlainResponse (snd (completeImageReception gz st imageId))"
  by (simp add: completeImageReception_def Let_def
      split: option.splits sum.splits gunzipResult.splits)

lemma no_plain_storeChunk:
  "\<not> list_ex isPlainResponse (snd (storeChunk gz now st imageId t c chunkData))"
  using no_plain_complete
  by (simp add: storeChunk_def Let_def split: option.splits)

lemma processImagePacket_unfold:
  assumes "slice 0 4 packetStr = ''SEND'' \<or> slice 0 4 packetStr = ''RETX''"
    and "13 \<le> validEndOf packetStr"
    and "metadata = slice (validEndOf packetStr - 8) (validEndOf packetStr) packetStr"
  shows "processImagePacket gz now st packetStr =
     (if \<not> (length metadata = 8 \<and> list_all isDigit metadata)
      then (st, commandResponse packetStr (validEndOf packetStr))
      else if parseInt (take 4 metadata) = 0
      then (st, commandResponse packetStr (validEndOf packetStr))
      else if parseInt (take 4 metadata) \<le> parseInt (drop 4 metadata)
      then (st, commandResponse packetStr (validEndOf packetStr))
      else if slice 4 (validEndOf packetStr - 8) packetStr = []
      then (st, [ImageLog Warning EmptyChunkData])
      else
        (fst (storeChunk gz now
                (fst (snd (findOrCreateImageReception now st
                   (''img_'' @ showNat (parseInt (take 4 metadata)))
                   (parseInt (take 4 metadata)) (parseInt (drop 4 metadata)))))
                (fst (findOrCreateImageReception now st
                   (''img_'' @ showNat (parseInt (take 4 metadata)))
                   (parseInt (take 4 metadata)) (parseInt (drop 4 metadata))))
                (parseInt (take 4 metadata)) (parseInt (drop 4 metadata))
                (slice 4 (validEndOf packetStr - 8) packetStr)),
         snd (snd (findOrCreateImageReception now st
                   (''img_'' @ showNat (parseInt (take 4 metadata)))
                   (parseInt (take 4 metadata)) (parseInt (drop 4 metadata)))) @
         snd (storeChunk gz now
                (fst (snd (findOrCreateImageReception now st
                   (''img_'' @ showNat (parseInt (take 4 metadata)))
                   (parseInt (take 4 metadata)) (parseInt (drop 4 metadata)))))
                (fst (findOrCreateImageReception now st
                   (''img_'' @ showNat (parseInt (take 4 metadata)))
                   (parseInt (take 4 metadata)) (parseInt (drop 4 metadata))))
                (parseInt (take 4 metadata)) (parseInt (drop 4 metadata))
                (slice 4 (validEndOf packetStr - 8) packetStr))))"
proof -
  let ?ve = "validEndOf packetStr"
  have hdr: "(if slice 0 4 packetStr \<noteq> ''SEND'' \<and> slice 0 4 packetStr \<noteq> ''RETX'' then A else B) = B"
    for A B :: "images \<times> event list"
    using assms(1) by auto
  have p1: "slice (?ve - 8) (?ve - 8 + 4) packetStr = take 4 metadata"
    using validEndOf_le [of packetStr] assms(2)
    by (simp add: assms(3) slice_def take_drop min_def)
  have p2: "slice (?ve - 8 + 4) (?ve - 8 + 8) packetStr = drop 4 metadata"
    using validEndOf_le [of packetStr] assms(2)
    by (simp add: assms(3) slice_def take_drop min_def add.commute)
  have c1: "\<not> ?ve \<le> 12" and c2: "\<not> ?ve < 13" using assms(2) by simp_all
  show ?thesis
    unfolding processImagePacket_def Let_def hdr p1 p2 assms(3) [symmetric]
    by (simp only: c1 c2 if_False le_zero_eq)
qed

text \<open>
  Claim C3, amended. For a packet that starts with SEND or RETX:
  when the valid part of the packet (tag included) is shorter than 13 characters, or its
  last eight characters are not all digits, or the numbers they spell fail
  \<open>total > 0\<close> and \<open>current < total\<close>, \<^verbatim>\<open>processImagePacket\<close> returns the
  tables unchanged and logs nothing but the trimmed text between the tag and the end of
  the valid part (nothing when that text is empty); and in every other case it logs no
  command-response line at all. The model has no error branch on this path.
\<close>

theorem reclassified_iff_plain_response:
  assumes "slice 0 4 packetStr = ''SEND'' \<or> slice 0 4 packetStr = ''RETX''"
  shows "(reclassified packetStr \<longrightarrow>
            processImagePacket gz now st packetStr =
              (st, commandResponse packetStr (validEndOf packetStr))) \<and>
         (\<not> reclassified packetStr \<longrightarrow>
            \<not> list_ex isPlainResponse (snd (processImagePacket gz now st packetStr)))"
proof (intro conjI impI)
  let ?ve = "validEndOf packetStr"
  let ?meta = "slice (?ve - 8) ?ve packetStr"
  have hdr: "(if slice 0 4 packetStr \<noteq> ''SEND'' \<and> slice 0 4 packetStr \<noteq> ''RETX'' then A else B) = B"
    for A B :: "images \<times> event list"
    using assms by auto
  {
    assume r: "reclassified packetStr"
    show "processImagePacket gz now st packetStr = (st, commandResponse packetStr ?ve)"
    proof (cases "?ve \<le> 12")
      case True
      then show ?thesis by (simp add: processImagePacket_def Let_def hdr)
    next
      case False
      then have ge: "13 \<le> ?ve" by simp
      from r False have d:
        "\<not> (length ?meta = 8 \<and> list_all isDigit ?meta) \<or>
         parseInt (take 4 ?meta) = 0 \<or> parseInt (take 4 ?meta) \<le> parseInt (drop 4 ?meta)"
        by (simp add: reclassified_def Let_def)
      show ?thesis
        unfolding processImagePacket_unfold [OF assms ge refl]
        using d by (elim disjE) simp_all
    qed
  }
  {
    assume n: "\<not> reclassified packetStr"
    then have ge: "13 \<le> ?ve" and m: "length ?meta = 8 \<and> list_all isDigit ?meta"
      and t: "parseInt (take 4 ?meta) \<noteq> 0"
      and c: "\<not> parseInt (take 4 ?meta) \<le> parseInt (drop 4 ?meta)"
      by (simp_all add: reclassified_def Let_def)
    show "\<not> list_ex isPlainResponse (snd (processImagePacket gz now st packetStr))"
      unfolding processImagePacket_unfold [OF assms ge refl]
      using m t c no_plain_findOrCreate no_plain_storeChunk
      by simp
  }
qed

theorem reclassified_iff_plain_response_witness:
  "reclassified ''SENDroot'' \<and>
   processImagePacket (\<lambda>b. GunzipRejects) 0 noImages ''SENDroot'' =
     (noImages, [ImageLog Response (PlainResponse ''root'')]) \<and>
   \<not> reclassified ''SENDAAAA00010000'' \<and>
   \<not> list_ex isPlainResponse
       (snd (processImagePacket (\<lambda>b. GunzipRejects) 0 noImages ''SENDAAAA00010000''))"
proof -
  have r: "reclassified ''SENDroot''" by code_simp
  have c: "commandResponse ''SENDroot'' (validEndOf ''SENDroot'') =
      [ImageLog Response (PlainResponse ''root'')]"
    by code_simp
  have n: "\<not> reclassified ''SENDAAAA00010000''" by code_simp
  have h1: "slice 0 4 ''SENDroot'' = ''SEND'' \<or> slice 0 4 ''SENDroot'' = ''RETX''"
    by (simp add: slice_def)
  have h2: "slice 0 4 ''SENDAAAA00010000'' = ''SEND'' \<or> slice 0 4 ''SENDAAAA00010000'' = ''RETX''"
    by (simp add: slice_def)
  from reclassified_iff_plain_response [OF h1, of "\<lambda>b. GunzipRejects" 0 noImages] r c
  have a: "processImagePacket (\<lambda>b. GunzipRejects) 0 noImages ''SENDroot'' =
     (noImages, [ImageLog Response (PlainResponse ''root'')])"
    by simp
  from reclassified_iff_plain_response [OF h2, of "\<lambda>b. GunzipRejects" 0 noImages] n
  have b: "\<not> list_ex isPlainResponse
       (snd (processImagePacket (\<lambda>b. GunzipRejects) 0 noImages ''SENDAAAA00010000''))"
    by simp
  show ?thesis using r a n b by blast
qed

text \<open>
  Claim C3 fails as stated: in \<^verbatim>\<open>SENDA00010000\<close> the valid tail behind the tag has
  nine characters, fewer than 13, yet the packet is taken as chunk 0 of 1: a reception
  is created and no command-response line is logged. The source compares the length of
  the valid part with the tag included (\<^verbatim>\<open>validEnd <= 12\<close>).
\<close>

theorem short_tail_counterexample:
  "length (drop 4 ''SENDA00010000'') < 13 \<and>
   list_all isValid (drop 4 ''SENDA00010000'') \<and>
   map fst (imageReceptions (fst (processImagePacket (\<lambda>b. GunzipRejects) 7 noImages ''SENDA00010000'')))
     = [''img_1''] \<and>
   snd (processImagePacket (\<lambda>b. GunzipRejects) 7 noImages ''SENDA00010000'') =
     [ImageLog Info (StartingReception ''img_1'' 1), ImageLog Response (Progress ''img_1'' 1 1),
      ImageLog Error (DecodeFailed ''img_1'')]"
  by code_simp

lemma digitChar_code:
  assumes "x < 10"
  shows "code (digitChar x) = 48 + x"
  using assms by (simp add: digitChar_def code_def)

lemma digitChar_props:
  assumes "x < 10"
  shows "isDigit (digitChar x)" and "isValid (digitChar x)"
  using assms by (simp_all add: isDigit_def isValid_def digitChar_code)

lemma pad4_digits: "list_all isDigit (pad4 n)" "length (pad4 n) = 4" "list_all isValid (pad4 n)"
  by (simp_all add: pad4_def digitChar_props)

lemma decimal4:
  assumes "n < 10000"
  shows "10 * (10 * (10 * (n div 1000 mod 10) + n div 100 mod 10) + n div 10 mod 10) + n mod 10 = (n::nat)"
proof -
  have a: "n div 1000 = n div 100 div 10" and b: "n div 100 = n div 10 div 10"
    by (simp_all add: div_mult2_eq [symmetric])
  have "n div 1000 < 10" using assms by simp
  then have c: "n div 1000 mod 10 = n div 1000" by simp
  have "10 * (n div 1000) + n div 100 mod 10 = n div 100"
    unfolding a by (rule mult_div_mod_eq)
  moreover have "10 * (n div 100) + n div 10 mod 10 = n div 10"
    unfolding b by (rule mult_div_mod_eq)
  moreover have "10 * (n div 10) + n mod 10 = n" by (rule mult_div_mod_eq)
  ultimately show ?thesis unfolding c by simp
qed

lemma parseInt_pad4:
  assumes "n < 10000"
  shows "parseInt (pad4 n) = n"
proof -
  have "parseInt (pad4 n) =
    10 * (10 * (10 * (n div 1000 mod 10) + n div 100 mod 10) + n div 10 mod 10) + n mod 10"
    by (simp add: parseInt_def pad4_def digitChar_code)
  then show ?thesis by (simp only: decimal4 [OF assms])
qed

lemma imagePacket_parse:
  assumes "tag = ''SEND'' \<or> tag = ''RETX''" and "chunkData \<noteq> []" and "t < 10000" and "c < 10000"
  defines "p \<equiv> imagePacket tag chunkData t c"
  shows "slice 0 4 p = tag" and "validEndOf p = length p" and "13 \<le> length p"
    and "slice (length p - 8) (length p) p = pad4 t @ pad4 c"
    and "slice 4 (length p - 8) p = chunkData"
proof -
  have lt: "length tag = 4" using assms(1) by auto
  have len: "length p = 12 + length chunkData"
    by (simp add: p_def imagePacket_def lt pad4_digits)
  show "slice 0 4 p = tag" by (simp add: p_def imagePacket_def slice_def lt)
  show ge: "13 \<le> length p" using assms(2) len by (cases chunkData) auto
  have "p \<noteq> []" using ge by auto
  then have "p ! (length p - 1) = last p" by (simp add: last_conv_nth)
  also have "last p = digitChar (c mod 10)" by (simp add: p_def imagePacket_def pad4_def)
  finally have "isValid (p ! (length p - 1))" by (simp add: digitChar_props)
  then show "validEndOf p = length p" using ge by (intro validEndOf_last_valid) simp_all
  show "slice (length p - 8) (length p) p = pad4 t @ pad4 c"
    by (simp add: p_def imagePacket_def slice_def lt pad4_digits)
  show "slice 4 (length p - 8) p = chunkData"
    by (simp add: p_def imagePacket_def slice_def lt pad4_digits)
qed

lemma processImagePacket_chunk:
  assumes "tag = ''SEND'' \<or> tag = ''RETX''" and "chunkData \<noteq> []" and "0 < t" and "t < 10000"
    and "c < t"
  shows "processImagePacket gz now st (imagePacket tag chunkData t c) =
     (fst (storeChunk gz now
             (fst (snd (findOrCreateImageReception now st (''img_'' @ showNat t) t c)))
             (fst (findOrCreateImageReception now st (''img_'' @ showNat t) t c))
             t c chunkData),
      snd (snd (findOrCreateImageReception now st (''img_'' @ showNat t) t c)) @
      snd (storeChunk gz now
             (fst (snd (findOrCreateImageReception now st (''img_'' @ showNat t) t c)))
             (fst (findOrCreateImageReception now st (''img_'' @ showNat t) t c))
             t c chunkData))"
proof -
  let ?p = "imagePacket tag chunkData t c"
  have c: "c < 10000" using assms(4,5) by simp
  note pp = imagePacket_parse [OF assms(1,2,4) c]
  have h: "slice 0 4 ?p = ''SEND'' \<or> slice 0 4 ?p = ''RETX''" using pp(1) assms(1) by simp
  have ge: "13 \<le> validEndOf ?p" using pp(2,3) by simp
  have m: "pad4 t @ pad4 c = slice (validEndOf ?p - 8) (validEndOf ?p) ?p"
    using pp(4) by (simp add: pp(2))
  have tk: "take 4 (pad4 t @ pad4 c) = pad4 t" "drop 4 (pad4 t @ pad4 c) = pad4 c"
    by (simp_all add: pad4_digits)
  have dg: "length (pad4 t @ pad4 c) = 8 \<and> list_all isDigit (pad4 t @ pad4 c)"
    by (simp add: pad4_digits)
  have cd: "slice 4 (validEndOf ?p - 8) ?p = chunkData" using pp(5) by (simp add: pp(2))
  show ?thesis
    unfolding processImagePacket_unfold [OF h ge m] tk parseInt_pad4 [OF assms(4)] parseInt_pad4 [OF c] cd
    using assms(2,3,5) dg by simp
qed

lemma find_map_of:
  assumes "distinct (map fst xs)" and "find P xs = Some (k, v)"
  shows "map_of xs k = Some v"
proof -
  from assms(2) have "(k, v) \<in> set xs" by (auto simp: find_Some_iff)
  with assms(1) show ?thesis by simp
qed

lemma storeChunk_duplicate:
  assumes "map_of (imageReceptions st) imageId = Some imageInfo"
    and "c \<in> set (receivedChunks imageInfo)"
  shows "storeChunk gz now st imageId t c chunkData = (st, [])"
  using assms by (simp add: storeChunk_def)

lemma findOrCreate_found:
  assumes "find (\<lambda>(existingId, imageInfo). totalChunks imageInfo = t) (imageReceptions st) =
             Some (imageId, imageInfo)"
  shows "findOrCreateImageReception now st proposed t c = (imageId, st, [])"
  using assms by (simp add: findOrCreateImageReception_def)

lemma list_all_update:
  "list_all P xs \<Longrightarrow> P (k, v) \<Longrightarrow> list_all P (AList.update k v xs)"
  by (induction xs) auto

lemma list_all_delete:
  "list_all P xs \<Longrightarrow> list_all P (AList.delete k xs)"
  by (induction xs) auto

lemma receivedOnce_complete:
  assumes "receivedOnce st"
  shows "receivedOnce (fst (completeImageReception gz st imageId))"
proof -
  have "fst (completeImageReception gz st imageId) = st \<or>
        fst (completeImageReception gz st imageId) =
          st\<lparr>imageReceptions := AList.delete imageId (imageReceptions st),
             imagePacketBuffer := AList.delete imageId (imagePacketBuffer st)\<rparr>"
    by (simp add: completeImageReception_def Let_def
        split: option.splits sum.splits gunzipResult.splits)
  then show ?thesis
    using assms by (auto simp: receivedOnce_def list_all_delete)
qed

lemma receivedOnce_findOrCreate:
  assumes "receivedOnce st"
  shows "receivedOnce (fst (snd (findOrCreateImageReception now st imageId t c)))"
proof (cases "find (\<lambda>(existingId, imageInfo). totalChunks imageInfo = t) (imageReceptions st)")
  case None
  have "list_all (\<lambda>(imageId, imageInfo). distinct (receivedChunks imageInfo))
          (AList.update k \<lparr>totalChunks = t, receivedChunks = [], startTime = now,
                 lastPacketTime = now, retransmitAttempts = 0, filename = f\<rparr> (imageReceptions st))"
    for k f
    using assms by (intro list_all_update) (simp_all add: receivedOnce_def)
  then show ?thesis
    by (simp add: findOrCreateImageReception_def None Let_def receivedOnce_def)
next
  case (Some a)
  then show ?thesis using assms
    by (cases a) (simp add: findOrCreateImageReception_def)
qed

lemma receivedOnce_storeChunk:
  assumes "receivedOnce st"
  shows "receivedOnce (fst (storeChunk gz now st imageId t c chunkData))"
proof (cases "map_of (imageReceptions st) imageId")
  case None
  then show ?thesis using assms by (simp add: storeChunk_def)
next
  case (Some imageInfo)
  then have "(imageId, imageInfo) \<in> set (imageReceptions st)" by (rule map_of_SomeD)
  with assms have d: "distinct (receivedChunks imageInfo)"
    by (auto simp: receivedOnce_def list_all_iff)
  show ?thesis
  proof (cases "c \<in> set (receivedChunks imageInfo)")
    case True
    then show ?thesis using assms Some by (simp add: storeChunk_def)
  next
    case False
    show ?thesis
    proof (cases "map_of (imagePacketBuffer st) imageId")
      case None
      then show ?thesis using assms Some False by (simp add: storeChunk_def)
    next
      case (Some packetBuffer)
      let ?stored = "imageInfo\<lparr>receivedChunks := receivedChunks imageInfo @ [c], lastPacketTime := now\<rparr>"
      let ?st' = "st\<lparr>imageReceptions := AList.update imageId ?stored (imageReceptions st),
                     imagePacketBuffer := AList.update imageId (packetBuffer(c \<mapsto> chunkData))
                        (imagePacketBuffer st)\<rparr>"
      have r: "receivedOnce ?st'"
        using assms d False by (simp add: receivedOnce_def list_all_update)
      have "fst (storeChunk gz now st imageId t c chunkData) = ?st' \<or>
            fst (storeChunk gz now st imageId t c chunkData) =
              fst (completeImageReception gz ?st' imageId)"
        using \<open>map_of (imageReceptions st) imageId = Some imageInfo\<close> False Some
        by (simp add: storeChunk_def Let_def)
      then show ?thesis using r receivedOnce_complete [OF r] by auto
    qed
  qed
qed

lemma processImagePacket_state:
  "fst (processImagePacket gz now st packetStr) = st \<or>
   (\<exists>imageId t c chunkData.
      fst (processImagePacket gz now st packetStr) =
        fst (storeChunk gz now
               (fst (snd (findOrCreateImageReception now st imageId t c)))
               (fst (findOrCreateImageReception now st imageId t c)) t c chunkData))"
proof (cases "slice 0 4 packetStr = ''SEND'' \<or> slice 0 4 packetStr = ''RETX''")
  case False
  then show ?thesis by (simp add: processImagePacket_def)
next
  case hdr: True
  then have h: "(if slice 0 4 packetStr \<noteq> ''SEND'' \<and> slice 0 4 packetStr \<noteq> ''RETX'' then A else B) = B"
    for A B :: "images \<times> event list"
    by auto
  show ?thesis
  proof (cases "validEndOf packetStr \<le> 12")
    case True
    then show ?thesis by (simp add: processImagePacket_def Let_def h)
  next
    case False
    then have ge: "13 \<le> validEndOf packetStr" by simp
    show ?thesis
      unfolding processImagePacket_unfold [OF hdr ge refl]
      by (simp only: fst_conv split: if_split) blast
  qed
qed

lemma receivedOnce_processImagePacket:
  assumes "receivedOnce st"
  shows "receivedOnce (fst (processImagePacket gz now st packetStr))"
  using processImagePacket_state [of gz now st packetStr] assms
    receivedOnce_storeChunk receivedOnce_findOrCreate
  by metis

subsection \<open>Duplicate chunks\<close>

lemma complete_state: "fst (completeImageReception gz st imageId) = st"
  by (simp add: completeImageReception_def Let_def
      split: option.splits sum.splits gunzipResult.splits)

lemma find_update_found:
  assumes "distinct (map fst xs)" and "find P xs = Some (k, v)" and "P (k, w)"
  shows "find P (AList.update k w xs) = Some (k, w)"
  using assms
proof (induction xs)
  case Nil
  then show ?case by simp
next
  case (Cons x xs)
  obtain k0 v0 where x: "x = (k0, v0)" by (cases x)
  show ?case
  proof (cases "P (k0, v0)")
    case True
    with Cons.prems(2) x have "k0 = k" by simp
    then show ?thesis using x Cons.prems(3) by simp
  next
    case False
    with Cons.prems(2) x have f: "find P xs = Some (k, v)" by simp
    then have "(k, v) \<in> set xs" by (auto simp: find_Some_iff)
    then have "k \<in> fst ` set xs" by force
    with Cons.prems(1) x have ne: "k0 \<noteq> k" by auto
    have d: "distinct (map fst xs)" using Cons.prems(1) by simp
    from Cons.IH [OF d f Cons.prems(3)] show ?thesis using x False ne by simp
  qed
qed

lemma find_update_new:
  assumes "find P xs = None" and "P (k, w)"
  shows "find P (AList.update k w xs) = Some (k, w)"
  using assms
proof (induction xs)
  case Nil
  then show ?case by simp
next
  case (Cons x xs)
  obtain k0 v0 where x: "x = (k0, v0)" by (cases x)
  from Cons.prems(1) x have np: "\<not> P (k0, v0)" and f: "find P xs = None"
    by (simp_all split: if_splits)
  show ?case
  proof (cases "k0 = k")
    case True
    then show ?thesis using x Cons.prems(2) by simp
  next
    case False
    from Cons.IH [OF f Cons.prems(2)] show ?thesis using x np False by simp
  qed
qed

lemma update_same_keys:
  assumes "map fst ys = map fst xs"
  shows "map fst (AList.update k w ys) = map fst (AList.update k v xs)"
  using assms by (simp add: update_keys)

lemma same_keys_map_of:
  assumes "map fst ys = map fst xs" and "map_of xs k = Some v"
  shows "\<exists>w. map_of ys k = Some w"
proof -
  from assms(2) have "k \<in> fst ` set xs" by (metis domI dom_map_of_conv_image_fst)
  then have "k \<in> fst ` set ys" using assms(1) by (metis list.set_map)
  then show ?thesis by (metis domD dom_map_of_conv_image_fst)
qed

text \<open>
  After \<^verbatim>\<open>findOrCreateImageReception\<close> the reception it returns is the first one with
  the total of the packet, and the two tables still have the same distinct keys.
\<close>

lemma findOrCreate_first:
  assumes "distinct (map fst (imageReceptions st))"
    and "map fst (imagePacketBuffer st) = map fst (imageReceptions st)"
  shows "\<exists>imageInfo.
           find (\<lambda>(existingId, imageInfo). totalChunks imageInfo = t)
             (imageReceptions (fst (snd (findOrCreateImageReception now st proposed t c)))) =
             Some (fst (findOrCreateImageReception now st proposed t c), imageInfo) \<and>
           distinct (map fst (imageReceptions (fst (snd (findOrCreateImageReception now st proposed t c))))) \<and>
           map fst (imagePacketBuffer (fst (snd (findOrCreateImageReception now st proposed t c)))) =
             map fst (imageReceptions (fst (snd (findOrCreateImageReception now st proposed t c))))"
proof (cases "find (\<lambda>(existingId, imageInfo). totalChunks imageInfo = t) (imageReceptions st)")
  case None
  let ?P = "\<lambda>(existingId, imageInfo). totalChunks imageInfo = t"
  let ?k = "if c = 0 then proposed else ''img_'' @ showNat t @ ''_'' @ showNat now"
  let ?created = "\<lparr>totalChunks = t, receivedChunks = [], startTime = now,
                 lastPacketTime = now, retransmitAttempts = 0,
                 filename = orElse (currentImageFilename st) (''image_'' @ showNat t @ ''.jpg.gz'')\<rparr>"
  have f: "findOrCreateImageReception now st proposed t c =
     (?k, st\<lparr>imageReceptions := AList.update ?k ?created (imageReceptions st),
               imagePacketBuffer := AList.update ?k Map.empty (imagePacketBuffer st)\<rparr>,
      [ImageLog Info (StartingReception ?k t)])"
    by (simp add: findOrCreateImageReception_def None Let_def)
  have p: "?P (?k, ?created)" by simp
  have a: "find ?P (AList.update ?k ?created (imageReceptions st)) = Some (?k, ?created)"
    using None p by (rule find_update_new)
  have b: "distinct (map fst (AList.update ?k ?created (imageReceptions st)))"
    using assms(1) by (simp only: distinct_update)
  have e: "map fst (AList.update ?k Map.empty (imagePacketBuffer st)) =
           map fst (AList.update ?k ?created (imageReceptions st))"
    using assms(2) by (rule update_same_keys)
  show ?thesis unfolding f using a b e by simp
next
  case (Some a)
  obtain imageId imageInfo where a: "a = (imageId, imageInfo)" by (cases a)
  have "findOrCreateImageReception now st proposed t c = (imageId, st, [])"
    using Some a by (simp add: findOrCreateImageReception_def)
  then show ?thesis using Some a assms by simp
qed

text \<open>
  After \<^verbatim>\<open>storeChunk\<close> for the first reception with the total of the packet, the index
  is in its received set, and it is still the first one with that total.
\<close>

lemma storeChunk_received:
  assumes "distinct (map fst (imageReceptions st))"
    and "map fst (imagePacketBuffer st) = map fst (imageReceptions st)"
    and "find (\<lambda>(existingId, imageInfo). totalChunks imageInfo = t) (imageReceptions st) =
           Some (imageId, imageInfo)"
  shows "\<exists>stored.
           find (\<lambda>(existingId, imageInfo). totalChunks imageInfo = t)
             (imageReceptions (fst (storeChunk gz now st imageId t c chunkData))) =
             Some (imageId, stored) \<and>
           c \<in> set (receivedChunks stored) \<and>
           distinct (map fst (imageReceptions (fst (storeChunk gz now st imageId t c chunkData)))) \<and>
           map fst (imagePacketBuffer (fst (storeChunk gz now st imageId t c chunkData))) =
             map fst (imageReceptions (fst (storeChunk gz now st imageId t c chunkData)))"
proof -
  let ?P = "\<lambda>(existingId, imageInfo). totalChunks imageInfo = t"
  have m: "map_of (imageReceptions st) imageId = Some imageInfo"
    using assms(1,3) by (rule find_map_of)
  have tc: "totalChunks imageInfo = t"
    using assms(3) by (auto simp: find_Some_iff)
  show ?thesis
  proof (cases "c \<in> set (receivedChunks imageInfo)")
    case True
    then have "storeChunk gz now st imageId t c chunkData = (st, [])"
      using m by (simp add: storeChunk_def)
    then show ?thesis using assms True by simp
  next
    case False
    from same_keys_map_of [OF assms(2) m] obtain packetBuffer where
      pb: "map_of (imagePacketBuffer st) imageId = Some packetBuffer" by blast
    let ?stored = "imageInfo\<lparr>receivedChunks := receivedChunks imageInfo @ [c], lastPacketTime := now\<rparr>"
    let ?st' = "st\<lparr>imageReceptions := AList.update imageId ?stored (imageReceptions st),
                   imagePacketBuffer := AList.update imageId (packetBuffer(c \<mapsto> chunkData))
                      (imagePacketBuffer st)\<rparr>"
    have s: "fst (storeChunk gz now st imageId t c chunkData) = ?st'"
      using m False pb by (simp add: storeChunk_def Let_def complete_state)
    have p: "?P (imageId, ?stored)" using tc by simp
    have a: "find ?P (AList.update imageId ?stored (imageReceptions st)) = Some (imageId, ?stored)"
      using assms(1,3) p by (rule find_update_found)
    have b: "distinct (map fst (AList.update imageId ?stored (imageReceptions st)))"
      using assms(1) by (simp only: distinct_update)
    have e: "map fst (AList.update imageId (packetBuffer(c \<mapsto> chunkData)) (imagePacketBuffer st)) =
             map fst (AList.update imageId ?stored (imageReceptions st))"
      using assms(2) by (rule update_same_keys)
    have r: "c \<in> set (receivedChunks ?stored)" by simp
    show ?thesis unfolding s using a b e r by (intro exI [of _ ?stored]) simp
  qed
qed

lemma chunk_in_received_set:
  assumes "tag = ''SEND'' \<or> tag = ''RETX''" and "chunkData \<noteq> []"
    and "0 < t" and "t < 10000" and "c < t"
    and "distinct (map fst (imageReceptions st))"
    and "find (\<lambda>(existingId, imageInfo). totalChunks imageInfo = t) (imageReceptions st) =
           Some (imageId, imageInfo)"
    and "c \<in> set (receivedChunks imageInfo)"
  shows "processImagePacket gz now st (imagePacket tag chunkData t c) = (st, [])"
proof -
  have f: "findOrCreateImageReception now st (''img_'' @ showNat t) t c = (imageId, st, [])"
    using assms(7) by (rule findOrCreate_found)
  have m: "map_of (imageReceptions st) imageId = Some imageInfo"
    using assms(6,7) by (rule find_map_of)
  show ?thesis
    unfolding processImagePacket_chunk [OF assms(1-5)] f
    by (simp add: storeChunk_duplicate [OF m assms(8)])
qed

lemma chunk_twice:
  assumes "tag = ''SEND'' \<or> tag = ''RETX''" and "chunkData \<noteq> []"
    and "0 < t" and "t < 10000" and "c < t"
    and "distinct (map fst (imageReceptions st))"
    and "map fst (imagePacketBuffer st) = map fst (imageReceptions st)"
  shows "processImagePacket gz later
           (fst (processImagePacket gz now st (imagePacket tag chunkData t c)))
           (imagePacket tag chunkData t c) =
         (fst (processImagePacket gz now st (imagePacket tag chunkData t c)), [])"
proof -
  let ?found = "findOrCreateImageReception now st (''img_'' @ showNat t) t c"
  let ?st2 = "fst (storeChunk gz now (fst (snd ?found)) (fst ?found) t c chunkData)"
  from findOrCreate_first [OF assms(6,7), of t now "''img_'' @ showNat t" c]
  obtain imageInfo where
    f: "find (\<lambda>(existingId, imageInfo). totalChunks imageInfo = t)
          (imageReceptions (fst (snd ?found))) = Some (fst ?found, imageInfo)"
    and d: "distinct (map fst (imageReceptions (fst (snd ?found))))"
    and e: "map fst (imagePacketBuffer (fst (snd ?found))) =
            map fst (imageReceptions (fst (snd ?found)))"
    by blast
  from storeChunk_received [OF d e f, of gz now c chunkData]
  obtain stored where
    f2: "find (\<lambda>(existingId, imageInfo). totalChunks imageInfo = t) (imageReceptions ?st2) =
           Some (fst ?found, stored)"
    and r: "c \<in> set (receivedChunks stored)"
    and d2: "distinct (map fst (imageReceptions ?st2))"
    by blast
  have s: "fst (processImagePacket gz now st (imagePacket tag chunkData t c)) = ?st2"
    by (simp add: processImagePacket_chunk [OF assms(1-5)])
  show ?thesis
    unfolding s by (rule chunk_in_received_set [OF assms(1-5) d2 f2 r])
qed

text \<open>
  The two conditions on the tables, distinct keys and the same keys in both, hold when
  the page has loaded, and every packet and every settled promise keeps them.
\<close>

lemma tables_agree_noImages:
  "distinct (map fst (imageReceptions noImages)) \<and>
   map fst (imagePacketBuffer noImages) = map fst (imageReceptions noImages)"
  by (simp add: noImages_def)

lemma tables_agree_processImagePacket:
  assumes "distinct (map fst (imageReceptions st))"
    and "map fst (imagePacketBuffer st) = map fst (imageReceptions st)"
  shows "distinct (map fst (imageReceptions (fst (processImagePacket gz now st packetStr)))) \<and>
         map fst (imagePacketBuffer (fst (processImagePacket gz now st packetStr))) =
           map fst (imageReceptions (fst (processImagePacket gz now st packetStr)))"
proof -
  from processImagePacket_state [of gz now st packetStr]
  consider "fst (processImagePacket gz now st packetStr) = st"
    | imageId t c chunkData where
      "fst (processImagePacket gz now st packetStr) =
        fst (storeChunk gz now
               (fst (snd (findOrCreateImageReception now st imageId t c)))
               (fst (findOrCreateImageReception now st imageId t c)) t c chunkData)"
    by blast
  then show ?thesis
  proof cases
    case 1
    then show ?thesis using assms by simp
  next
    case 2
    let ?found = "findOrCreateImageReception now st imageId t c"
    from findOrCreate_first [OF assms, of t now imageId c]
    obtain imageInfo where
      f: "find (\<lambda>(existingId, imageInfo). totalChunks imageInfo = t)
            (imageReceptions (fst (snd ?found))) = Some (fst ?found, imageInfo)"
      and d: "distinct (map fst (imageReceptions (fst (snd ?found))))"
      and e: "map fst (imagePacketBuffer (fst (snd ?found))) =
              map fst (imageReceptions (fst (snd ?found)))"
      by blast
    from storeChunk_received [OF d e f, of gz now c chunkData]
    show ?thesis unfolding 2 by blast
  qed
qed

lemma tables_agree_onDecompressed:
  assumes "distinct (map fst (imageReceptions st))"
    and "map fst (imagePacketBuffer st) = map fst (imageReceptions st)"
  shows "distinct (map fst (imageReceptions (fst (onDecompressed gz st imageId bytes)))) \<and>
         map fst (imagePacketBuffer (fst (onDecompressed gz st imageId bytes))) =
           map fst (imageReceptions (fst (onDecompressed gz st imageId bytes)))"
  using assms
  by (simp add: onDecompressed_def delete_keys distinct_removeAll split: gunzipResult.splits)

text \<open>
  Claim C7, amended. For a chunk packet with a valid tag, a non-empty text and correct
  numbers: (1) when its index is already in the received set of the reception found for
  its total, the packet leaves both tables exactly as they were (received set, stored
  chunk texts, time of the last packet) and logs nothing; (2) delivering the packet twice,
  with nothing between the two deliveries that removes the reception, is delivering it
  once: the second delivery leaves the tables of the first and logs nothing, also when
  the chunk is the one that completes the image, since the reception is deleted only by
  the callback of the decompression; (3) no packet whatsoever makes a received set hold
  an index twice.
\<close>

theorem duplicate_chunk_noop:
  assumes "tag = ''SEND'' \<or> tag = ''RETX''" and "chunkData \<noteq> []"
    and "0 < t" and "t < 10000" and "c < t"
    and "distinct (map fst (imageReceptions st))"
  shows "((\<exists>imageId imageInfo.
             find (\<lambda>(existingId, imageInfo). totalChunks imageInfo = t) (imageReceptions st) =
               Some (imageId, imageInfo) \<and>
             c \<in> set (receivedChunks imageInfo)) \<longrightarrow>
          processImagePacket gz now st (imagePacket tag chunkData t c) = (st, [])) \<and>
         (map fst (imagePacketBuffer st) = map fst (imageReceptions st) \<longrightarrow>
          processImagePacket gz later
            (fst (processImagePacket gz now st (imagePacket tag chunkData t c)))
            (imagePacket tag chunkData t c) =
          (fst (processImagePacket gz now st (imagePacket tag chunkData t c)), [])) \<and>
         (receivedOnce st \<longrightarrow> receivedOnce (fst (processImagePacket gz now st packetStr)))"
proof (intro conjI impI)
  assume "\<exists>imageId imageInfo.
             find (\<lambda>(existingId, imageInfo). totalChunks imageInfo = t) (imageReceptions st) =
               Some (imageId, imageInfo) \<and>
             c \<in> set (receivedChunks imageInfo)"
  then obtain imageId imageInfo where
    "find (\<lambda>(existingId, imageInfo). totalChunks imageInfo = t) (imageReceptions st) =
       Some (imageId, imageInfo)" "c \<in> set (receivedChunks imageInfo)"
    by blast
  then show "processImagePacket gz now st (imagePacket tag chunkData t c) = (st, [])"
    by (rule chunk_in_received_set [OF assms(1-6)])
next
  assume "map fst (imagePacketBuffer st) = map fst (imageReceptions st)"
  then show "processImagePacket gz later
            (fst (processImagePacket gz now st (imagePacket tag chunkData t c)))
            (imagePacket tag chunkData t c) =
          (fst (processImagePacket gz now st (imagePacket tag chunkData t c)), [])"
    by (rule chunk_twice [OF assms(1-6)])
next
  assume "receivedOnce st"
  then show "receivedOnce (fst (processImagePacket gz now st packetStr))"
    by (rule receivedOnce_processImagePacket)
qed

theorem duplicate_chunk_noop_witness:
  "processImagePacket (\<lambda>b. GunzipRejects) 9
     \<lparr>imageReceptions =
        [(''img_2_7'', \<lparr>totalChunks = 2, receivedChunks = [1], startTime = 7, lastPacketTime = 7,
                        retransmitAttempts = 0, filename = ''image_2.jpg.gz''\<rparr>)],
      imagePacketBuffer = [(''img_2_7'', [1 \<mapsto> ''AAAA''])],
      currentImageFilename = None\<rparr>
     (imagePacket ''SEND'' ''AAAA'' 2 1) =
   (\<lparr>imageReceptions =
        [(''img_2_7'', \<lparr>totalChunks = 2, receivedChunks = [1], startTime = 7, lastPacketTime = 7,
                        retransmitAttempts = 0, filename = ''image_2.jpg.gz''\<rparr>)],
      imagePacketBuffer = [(''img_2_7'', [1 \<mapsto> ''AAAA''])],
      currentImageFilename = None\<rparr>, []) \<and>
   processImagePacket (\<lambda>b. Inflated ''jpg'') 9
     (fst (processImagePacket (\<lambda>b. Inflated ''jpg'') 7 noImages ''SENDH4sI00010000''))
     ''SENDH4sI00010000'' =
   (fst (processImagePacket (\<lambda>b. Inflated ''jpg'') 7 noImages ''SENDH4sI00010000''), []) \<and>
   receivedOnce (fst (processImagePacket (\<lambda>b. GunzipRejects) 9
     \<lparr>imageReceptions =
        [(''img_2_7'', \<lparr>totalChunks = 2, receivedChunks = [1], startTime = 7, lastPacketTime = 7,
                        retransmitAttempts = 0, filename = ''image_2.jpg.gz''\<rparr>)],
      imagePacketBuffer = [(''img_2_7'', [1 \<mapsto> ''AAAA''])],
      currentImageFilename = None\<rparr>
     ''SENDBBBB00020000''))"
proof -
  let ?info = "\<lparr>totalChunks = 2, receivedChunks = [1], startTime = 7, lastPacketTime = 7,
                 retransmitAttempts = 0, filename = ''image_2.jpg.gz''\<rparr>"
  let ?st = "\<lparr>imageReceptions = [(''img_2_7'', ?info)],
      imagePacketBuffer = [(''img_2_7'', [1 \<mapsto> ''AAAA''])],
      currentImageFilename = None\<rparr>"
  have 1: "''SEND'' = ''SEND'' \<or> ''SEND'' = ''RETX''" by simp
  have 2: "''AAAA'' \<noteq> []" and n2: "''H4sI'' \<noteq> []" by simp_all
  have 3: "(0::nat) < 2" and 4: "(2::nat) < 10000" and 5: "(1::nat) < 2" by simp_all
  have n3: "(0::nat) < 1" and n4: "(1::nat) < 10000" by simp_all
  have 6: "distinct (map fst (imageReceptions ?st))" by simp
  have n6: "distinct (map fst (imageReceptions noImages))" by (simp add: noImages_def)
  have 7: "\<exists>imageId imageInfo.
             find (\<lambda>(existingId, imageInfo). totalChunks imageInfo = 2) (imageReceptions ?st) =
               Some (imageId, imageInfo) \<and> 1 \<in> set (receivedChunks imageInfo)"
    by simp
  have 8: "map fst (imagePacketBuffer noImages) = map fst (imageReceptions noImages)"
    by (simp add: noImages_def)
  have r: "receivedOnce ?st" by (simp add: receivedOnce_def)
  have p: "imagePacket ''SEND'' ''H4sI'' 1 0 = ''SENDH4sI00010000''" by code_simp
  from duplicate_chunk_noop [OF 1 2 3 4 5 6, of "\<lambda>b. GunzipRejects" 9 12 "''SENDBBBB00020000''"] 7 r
  have a: "processImagePacket (\<lambda>b. GunzipRejects) 9 ?st (imagePacket ''SEND'' ''AAAA'' 2 1) = (?st, [])"
    and c: "receivedOnce (fst (processImagePacket (\<lambda>b. GunzipRejects) 9 ?st ''SENDBBBB00020000''))"
    by blast+
  from duplicate_chunk_noop [OF 1 n2 n3 n4 n3 n6, of "\<lambda>b. Inflated ''jpg''" 7 9 "[]"] 8
  have b: "processImagePacket (\<lambda>b. Inflated ''jpg'') 9
     (fst (processImagePacket (\<lambda>b. Inflated ''jpg'') 7 noImages (imagePacket ''SEND'' ''H4sI'' 1 0)))
     (imagePacket ''SEND'' ''H4sI'' 1 0) =
   (fst (processImagePacket (\<lambda>b. Inflated ''jpg'') 7 noImages (imagePacket ''SEND'' ''H4sI'' 1 0)), [])"
    by blast
  show ?thesis using a b c unfolding p by blast
qed

text \<open>
  Claim C7 as stated does not hold past the completion of the image. The only chunk of a
  one-chunk image arrives and starts the decompression; the promise resolves and the
  callback deletes the reception; a second copy of the same packet then finds no
  reception, starts a new one, is stored, logged and decompressed again, where a single
  delivery leaves no reception and one completion.
\<close>

theorem chunk_after_completion_counterexample:
  "imageReceptions (fst (fst (runTasks (\<lambda>b. Inflated ''jpg'') (noImages, [])
      [Packet 7 ''SENDH4sI00010000'', Settled 0]))) = [] \<and>
   snd (runTasks (\<lambda>b. Inflated ''jpg'') (noImages, [])
      [Packet 7 ''SENDH4sI00010000'', Settled 0]) =
     [ImageLog Info (StartingReception ''img_1'' 1),
      ImageLog Response (Progress ''img_1'' 1 1),
      Decompress ''img_1'' [CHR 0x1F, CHR 0x8B, CHR 0x08],
      ImageLog Response (ImageCompleted ''img_1''),
      Download ''img_1'' [CHR 0x1F, CHR 0x8B, CHR 0x08] (Some ''jpg''),
      ImageLog Info (CleanupCompleted ''img_1'')] \<and>
   imageReceptions (fst (fst (runTasks (\<lambda>b. Inflated ''jpg'') (noImages, [])
      [Packet 7 ''SENDH4sI00010000'', Settled 0, Packet 9 ''SENDH4sI00010000'']))) =
     [(''img_1'', \<lparr>totalChunks = 1, receivedChunks = [0], startTime = 9, lastPacketTime = 9,
                  retransmitAttempts = 0, filename = ''image_1.jpg.gz''\<rparr>)] \<and>
   snd (runTasks (\<lambda>b. Inflated ''jpg'') (noImages, [])
      [Packet 7 ''SENDH4sI00010000'', Settled 0, Packet 9 ''SENDH4sI00010000'']) =
     [ImageLog Info (StartingReception ''img_1'' 1),
      ImageLog Response (Progress ''img_1'' 1 1),
      Decompress ''img_1'' [CHR 0x1F, CHR 0x8B, CHR 0x08],
      ImageLog Response (ImageCompleted ''img_1''),
      Download ''img_1'' [CHR 0x1F, CHR 0x8B, CHR 0x08] (Some ''jpg''),
      ImageLog Info (CleanupCompleted ''img_1''),
      ImageLog Info (StartingReception ''img_1'' 1),
      ImageLog Response (Progress ''img_1'' 1 1),
      Decompress ''img_1'' [CHR 0x1F, CHR 0x8B, CHR 0x08]]"
  by code_simp
subsection \<open>Completion\<close>

lemma promises_append: "promises (xs @ ys) = promises xs @ promises ys"
  by (induction xs rule: promises.induct) simp_all

lemma reconstruct_missing:
  "\<exists>i \<in> set is. packetBuffer i = None \<Longrightarrow> \<exists>j. reconstruct packetBuffer t is acc = Inl j"
proof (induction "is" arbitrary: acc)
  case Nil
  then show ?case by simp
next
  case (Cons i "is")
  show ?case
  proof (cases "packetBuffer i")
    case None
    then show ?thesis by simp
  next
    case (Some chunk)
    with Cons.prems have "\<exists>i \<in> set is. packetBuffer i = None" by auto
    from Cons.IH [OF this] show ?thesis by (simp add: Some)
  qed
qed

lemma complete_unfold:
  assumes "map_of (imageReceptions st) imageId = Some imageInfo"
    and "map_of (imagePacketBuffer st) imageId = Some packetBuffer"
  shows "completeImageReception gz st imageId =
     (case reconstruct packetBuffer (totalChunks imageInfo) [0..<totalChunks imageInfo] [] of
             Inl i \<Rightarrow> (st, [ImageLog Error (MissingChunk i imageId)])
           | Inr reconstructedData \<Rightarrow>
               if \<not> isBase64Format reconstructedData
               then (st, [ImageLog Error (InvalidBase64 imageId)])
               else
                 (case atob reconstructedData of
                    None \<Rightarrow> (st, [ImageLog Error (DecodeFailed imageId)])
                  | Some bytes \<Rightarrow>
                      if length bytes < 2
                      then (st, [ImageLog Warning NoGzipMagic, ImageLog Error (DecodeFailed imageId)])
                      else
                        (case gz bytes of
                           GunzipThrows \<Rightarrow>
                             (st, (if code (bytes ! 0) \<noteq> 0x1f \<or> code (bytes ! 1) \<noteq> 0x8b
                               then [ImageLog Warning NoGzipMagic] else []) @
                              [ImageLog Warning DecompressFailed,
                               ImageLog Response (ImageCompleted imageId),
                               Download imageId bytes None])
                         | Inflated decompressed \<Rightarrow>
                             (st, (if code (bytes ! 0) \<noteq> 0x1f \<or> code (bytes ! 1) \<noteq> 0x8b
                               then [ImageLog Warning NoGzipMagic] else []) @
                              [Decompress imageId bytes])
                         | GunzipRejects \<Rightarrow>
                             (st, (if code (bytes ! 0) \<noteq> 0x1f \<or> code (bytes ! 1) \<noteq> 0x8b
                               then [ImageLog Warning NoGzipMagic] else []) @
                              [Decompress imageId bytes]))))"
  by (auto simp: completeImageReception_def assms Let_def
      split: sum.splits option.splits gunzipResult.splits)

lemma settle_none: "runTask gz (later, []) (Settled 0) = ((later, []), [])"
  by (simp add: runTask_def)

lemma settle_rejected:
  assumes "gz bytes = GunzipRejects"
  shows "runTask gz (later, [(imageId, bytes)]) (Settled 0) =
           ((later, []), [ImageLog Error UnhandledRejection])"
  using assms by (simp add: runTask_def onDecompressed_def)

text \<open>
  Claim C9. When \<^verbatim>\<open>completeImageReception\<close> runs for a reception that is in both
  tables and the reconstruction fails, because a chunk index is missing from the chunk
  store, or the concatenated text fails the base64 format test, or the gzip
  decompression throws or rejects, then the call leaves both tables as they were, and
  so does the settling of the promise it may have started, on whatever tables
  \<open>later\<close> there are by then; an error or a warning is logged, by the call or, for a
  rejected promise, when it settles; and nothing is written to the transport.
\<close>

theorem reconstruction_failure_keeps_reception:
  assumes "map_of (imageReceptions st) imageId = Some imageInfo"
    and "map_of (imagePacketBuffer st) imageId = Some packetBuffer"
    and "(\<exists>i < totalChunks imageInfo. packetBuffer i = None) \<or>
         (\<exists>reconstructedData.
            reconstruct packetBuffer (totalChunks imageInfo) [0..<totalChunks imageInfo] [] =
              Inr reconstructedData \<and>
            (\<not> isBase64Format reconstructedData \<or>
             (\<exists>bytes. atob reconstructedData = Some bytes \<and>
                (gz bytes = GunzipThrows \<or> gz bytes = GunzipRejects))))"
  shows "fst (completeImageReception gz st imageId) = st \<and>
         fst (fst (runTask gz (later, promises (snd (completeImageReception gz st imageId)))
                     (Settled 0))) = later \<and>
         list_ex isReport
           (snd (completeImageReception gz st imageId) @
            snd (runTask gz (later, promises (snd (completeImageReception gz st imageId)))
                   (Settled 0))) \<and>
         \<not> list_ex isWrite
           (snd (completeImageReception gz st imageId) @
            snd (runTask gz (later, promises (snd (completeImageReception gz st imageId)))
                   (Settled 0)))"
  using assms(3)
proof (elim disjE exE conjE)
  fix i
  assume "i < totalChunks imageInfo" "packetBuffer i = None"
  then have "\<exists>i \<in> set [0..<totalChunks imageInfo]. packetBuffer i = None" by auto
  from reconstruct_missing [OF this] obtain j where
    "reconstruct packetBuffer (totalChunks imageInfo) [0..<totalChunks imageInfo] [] = Inl j"
    by blast
  then show ?thesis by (simp add: complete_unfold [OF assms(1,2)] settle_none)
next
  fix reconstructedData
  assume "reconstruct packetBuffer (totalChunks imageInfo) [0..<totalChunks imageInfo] [] =
              Inr reconstructedData" "\<not> isBase64Format reconstructedData"
  then show ?thesis by (simp add: complete_unfold [OF assms(1,2)] settle_none)
next
  fix reconstructedData bytes
  assume "reconstruct packetBuffer (totalChunks imageInfo) [0..<totalChunks imageInfo] [] =
              Inr reconstructedData" "atob reconstructedData = Some bytes" "gz bytes = GunzipThrows"
  then show ?thesis
    by (simp add: complete_unfold [OF assms(1,2)] settle_none promises_append)
next
  fix reconstructedData bytes
  assume "reconstruct packetBuffer (totalChunks imageInfo) [0..<totalChunks imageInfo] [] =
              Inr reconstructedData" "atob reconstructedData = Some bytes"
    and r: "gz bytes = GunzipRejects"
  then show ?thesis
    by (simp add: complete_unfold [OF assms(1,2)] settle_none settle_rejected
        promises_append)
qed

theorem reconstruction_failure_keeps_reception_witness:
  "fst (completeImageReception (\<lambda>b. GunzipRejects)
     \<lparr>imageReceptions =
        [(''img_1'', \<lparr>totalChunks = 1, receivedChunks = [0], startTime = 7, lastPacketTime = 7,
                      retransmitAttempts = 0, filename = ''image_1.jpg.gz''\<rparr>)],
      imagePacketBuffer = [(''img_1'', [0 \<mapsto> ''H4sI''])],
      currentImageFilename = None\<rparr> ''img_1'') =
     \<lparr>imageReceptions =
        [(''img_1'', \<lparr>totalChunks = 1, receivedChunks = [0], startTime = 7, lastPacketTime = 7,
                      retransmitAttempts = 0, filename = ''image_1.jpg.gz''\<rparr>)],
      imagePacketBuffer = [(''img_1'', [0 \<mapsto> ''H4sI''])],
      currentImageFilename = None\<rparr> \<and>
   fst (fst (runTask (\<lambda>b. GunzipRejects)
     (\<lparr>imageReceptions =
        [(''img_1'', \<lparr>totalChunks = 1, receivedChunks = [0], startTime = 7, lastPacketTime = 7,
                      retransmitAttempts = 0, filename = ''image_1.jpg.gz''\<rparr>)],
      imagePacketBuffer = [(''img_1'', [0 \<mapsto> ''H4sI''])],
      currentImageFilename = None\<rparr>,
      promises (snd (completeImageReception (\<lambda>b. GunzipRejects)
        \<lparr>imageReceptions =
           [(''img_1'', \<lparr>totalChunks = 1, receivedChunks = [0], startTime = 7, lastPacketTime = 7,
                         retransmitAttempts = 0, filename = ''image_1.jpg.gz''\<rparr>)],
         imagePacketBuffer = [(''img_1'', [0 \<mapsto> ''H4sI''])],
         currentImageFilename = None\<rparr> ''img_1'')))
     (Settled 0))) =
     \<lparr>imageReceptions =
        [(''img_1'', \<lparr>totalChunks = 1, receivedChunks = [0], startTime = 7, lastPacketTime = 7,
                      retransmitAttempts = 0, filename = ''image_1.jpg.gz''\<rparr>)],
      imagePacketBuffer = [(''img_1'', [0 \<mapsto> ''H4sI''])],
      currentImageFilename = None\<rparr> \<and>
   list_ex isReport
     (snd (completeImageReception (\<lambda>b. GunzipRejects)
        \<lparr>imageReceptions =
           [(''img_1'', \<lparr>totalChunks = 1, receivedChunks = [0], startTime = 7, lastPacketTime = 7,
                         retransmitAttempts = 0, filename = ''image_1.jpg.gz''\<rparr>)],
         imagePacketBuffer = [(''img_1'', [0 \<mapsto> ''H4sI''])],
         currentImageFilename = None\<rparr> ''img_1'') @
      snd (runTask (\<lambda>b. GunzipRejects)
        (\<lparr>imageReceptions =
           [(''img_1'', \<lparr>totalChunks = 1, receivedChunks = [0], startTime = 7, lastPacketTime = 7,
                         retransmitAttempts = 0, filename = ''image_1.jpg.gz''\<rparr>)],
         imagePacketBuffer = [(''img_1'', [0 \<mapsto> ''H4sI''])],
         currentImageFilename = None\<rparr>,
         promises (snd (completeImageReception (\<lambda>b. GunzipRejects)
           \<lparr>imageReceptions =
              [(''img_1'', \<lparr>totalChunks = 1, receivedChunks = [0], startTime = 7, lastPacketTime = 7,
                            retransmitAttempts = 0, filename = ''image_1.jpg.gz''\<rparr>)],
            imagePacketBuffer = [(''img_1'', [0 \<mapsto> ''H4sI''])],
            currentImageFilename = None\<rparr> ''img_1'')))
        (Settled 0))) \<and>
   \<not> list_ex isWrite
     (snd (completeImageReception (\<lambda>b. GunzipRejects)
        \<lparr>imageReceptions =
           [(''img_1'', \<lparr>totalChunks = 1, receivedChunks = [0], startTime = 7, lastPacketTime = 7,
                         retransmitAttempts = 0, filename = ''image_1.jpg.gz''\<rparr>)],
         imagePacketBuffer = [(''img_1'', [0 \<mapsto> ''H4sI''])],
         currentImageFilename = None\<rparr> ''img_1'') @
      snd (runTask (\<lambda>b. GunzipRejects)
        (\<lparr>imageReceptions =
           [(''img_1'', \<lparr>totalChunks = 1, receivedChunks = [0], startTime = 7, lastPacketTime = 7,
                         retransmitAttempts = 0, filename = ''image_1.jpg.gz''\<rparr>)],
         imagePacketBuffer = [(''img_1'', [0 \<mapsto> ''H4sI''])],
         currentImageFilename = None\<rparr>,
         promises (snd (completeImageReception (\<lambda>b. GunzipRejects)
           \<lparr>imageReceptions =
              [(''img_1'', \<lparr>totalChunks = 1, receivedChunks = [0], startTime = 7, lastPacketTime = 7,
                            retransmitAttempts = 0, filename = ''image_1.jpg.gz''\<rparr>)],
            imagePacketBuffer = [(''img_1'', [0 \<mapsto> ''H4sI''])],
            currentImageFilename = None\<rparr> ''img_1'')))
        (Settled 0)))"
proof -
  let ?info = "\<lparr>totalChunks = 1, receivedChunks = [0], startTime = 7, lastPacketTime = 7,
                 retransmitAttempts = 0, filename = ''image_1.jpg.gz''\<rparr>"
  let ?pb = "[0 \<mapsto> ''H4sI'']"
  let ?st = "\<lparr>imageReceptions = [(''img_1'', ?info)],
      imagePacketBuffer = [(''img_1'', ?pb)],
      currentImageFilename = None\<rparr>"
  have 1: "map_of (imageReceptions ?st) ''img_1'' = Some ?info" by simp
  have 2: "map_of (imagePacketBuffer ?st) ''img_1'' = Some ?pb" by simp
  have u: "[0..<totalChunks ?info] = [0]" by simp
  have a: "reconstruct ?pb (totalChunks ?info) [0..<totalChunks ?info] [] = Inr ''H4sI''"
    unfolding u by simp
  have b: "atob ''H4sI'' = Some [CHR 0x1F, CHR 0x8B, CHR 0x08]" by code_simp
  have 3: "(\<exists>i < totalChunks ?info. ?pb i = None) \<or>
         (\<exists>reconstructedData.
            reconstruct ?pb (totalChunks ?info) [0..<totalChunks ?info] [] =
              Inr reconstructedData \<and>
            (\<not> isBase64Format reconstructedData \<or>
             (\<exists>bytes. atob reconstructedData = Some bytes \<and>
                ((\<lambda>b. GunzipRejects) bytes = GunzipThrows \<or>
                 (\<lambda>b. GunzipRejects) bytes = GunzipRejects))))"
    using a b by blast
  show ?thesis by (rule reconstruction_failure_keeps_reception [OF 1 2 3])
qed

subsection \<open>Reassembly of a complete image\<close>

lemma chunkStore_update:
  "(chunkStore chunks arrived)(i \<mapsto> chunks i) = chunkStore chunks (arrived @ [i])"
  by (rule ext) (simp add: chunkStore_def)

lemma chunkStore_empty: "Map.empty = chunkStore chunks []"
  by (rule ext) (simp add: chunkStore_def)

lemma findOrCreate_idle:
  "\<exists>imageId name.
     findOrCreateImageReception now (idle current) proposed n i =
       (imageId, receiving current n chunks imageId now now name [],
        [ImageLog Info (StartingReception imageId n)])"
  by (simp add: findOrCreateImageReception_def idle_def receiving_def Let_def
      chunkStore_empty [symmetric])

lemma findOrCreate_receiving:
  "findOrCreateImageReception now (receiving current n chunks imageId started latest name arrived)
     proposed n i =
   (imageId, receiving current n chunks imageId started latest name arrived, [])"
  by (simp add: findOrCreateImageReception_def receiving_def)

lemma reconstruct_all:
  assumes "\<forall>i \<in> set is. packetBuffer i = Some (chunks i)"
  shows "reconstruct packetBuffer n is acc =
           Inr (acc @ concat (map (\<lambda>i. if i < n - 1 then stripPadding (chunks i) else chunks i) is))"
  using assms by (induction "is" arbitrary: acc) simp_all

lemma storeChunk_receiving_more:
  assumes "i \<notin> set arrived" and "length arrived + 1 \<noteq> n"
  shows "\<exists>evs. storeChunk gz now (receiving current n chunks imageId started latest name arrived)
           imageId n i (chunks i) =
         (receiving current n chunks imageId started now name (arrived @ [i]), evs) \<and>
         promises evs = [] \<and> filter isDownload evs = []"
  using assms
  by (simp add: storeChunk_def receiving_def Let_def chunkStore_update)

lemma storeChunk_receiving_last:
  assumes "i \<notin> set arrived" and "length arrived + 1 = n"
    and "set (arrived @ [i]) = {0..<n}"
    and "isBase64Format (paddingCorrected n chunks)"
    and "atob (paddingCorrected n chunks) = Some bytes"
    and "2 \<le> length bytes"
    and "gz bytes = Inflated picture"
  shows "\<exists>evs. storeChunk gz now (receiving current n chunks imageId started latest name arrived)
           imageId n i (chunks i) =
         (receiving current n chunks imageId started now name (arrived @ [i]), evs) \<and>
         promises evs = [(imageId, bytes)] \<and> filter isDownload evs = []"
proof -
  let ?st' = "receiving current n chunks imageId started now name (arrived @ [i])"
  let ?pb = "chunkStore chunks (arrived @ [i])"
  let ?info = "\<lparr>totalChunks = n, receivedChunks = arrived @ [i], startTime = started,
                    lastPacketTime = now, retransmitAttempts = 0, filename = name\<rparr>"
  have "\<forall>j \<in> set [0..<n]. ?pb j = Some (chunks j)"
    using assms(3) by (auto simp: chunkStore_def)
  from reconstruct_all [OF this, of n "[]"]
  have rec: "reconstruct ?pb (totalChunks ?info) [0..<totalChunks ?info] [] =
      Inr (paddingCorrected n chunks)"
    by (simp add: paddingCorrected_def)
  have m1: "map_of (imageReceptions ?st') imageId = Some ?info"
    by (simp add: receiving_def)
  have m2: "map_of (imagePacketBuffer ?st') imageId = Some ?pb"
    by (simp add: receiving_def)
  have nl: "\<not> length bytes < 2" using assms(6) by simp
  have c: "\<exists>evs. completeImageReception gz ?st' imageId = (?st', evs) \<and>
      promises evs = [(imageId, bytes)] \<and> filter isDownload evs = []"
    unfolding complete_unfold [OF m1 m2] rec
    by (simp add: assms(4,5,7) nl)
  then obtain evs where c1: "completeImageReception gz ?st' imageId = (?st', evs)"
    and c2: "promises evs = [(imageId, bytes)]" and c3: "filter isDownload evs = []" by blast
  have st: "storeChunk gz now (receiving current n chunks imageId started latest name arrived)
           imageId n i (chunks i) =
        (fst (completeImageReception gz ?st' imageId),
         (if i mod 50 = 0 \<or> i = 0 \<or> i = n - 1
          then [ImageLog Response (Progress imageId n n)] else []) @
         snd (completeImageReception gz ?st' imageId))"
    using assms(1,2)
    by (simp add: storeChunk_def Let_def receiving_def chunkStore_update)
  show ?thesis unfolding st c1 using c2 c3 by (simp add: promises_append)
qed

lemma packet_on_receiving:
  assumes "tag = ''SEND'' \<or> tag = ''RETX''" and "chunkData \<noteq> []" and "0 < n" and "n < 10000"
    and "i < n"
  shows "processImagePacket gz now (receiving current n chunks imageId started latest name arrived)
           (imagePacket tag chunkData n i) =
         storeChunk gz now (receiving current n chunks imageId started latest name arrived)
           imageId n i chunkData"
  unfolding processImagePacket_chunk [OF assms] findOrCreate_receiving by simp

lemma packet_on_idle:
  assumes "tag = ''SEND'' \<or> tag = ''RETX''" and "chunkData \<noteq> []" and "0 < n" and "n < 10000"
    and "i < n"
  shows "\<exists>imageId name.
         processImagePacket gz now (idle current) (imagePacket tag chunkData n i) =
         (fst (storeChunk gz now (receiving current n chunks imageId now now name [])
                 imageId n i chunkData),
          ImageLog Info (StartingReception imageId n) #
          snd (storeChunk gz now (receiving current n chunks imageId now now name [])
                 imageId n i chunkData))"
proof -
  from findOrCreate_idle [of now current "''img_'' @ showNat n" n i chunks]
  obtain imageId name where
    f: "findOrCreateImageReception now (idle current) (''img_'' @ showNat n) n i =
       (imageId, receiving current n chunks imageId now now name [],
        [ImageLog Info (StartingReception imageId n)])"
    by blast
  show ?thesis
    unfolding processImagePacket_chunk [OF assms] f by auto
qed

text \<open>
  One packet of the image, on the tables with no reception (\<open>arrived\<close> is empty) or with
  the reception of the image: the chunk is stored, and the decompression is started
  exactly when it is the last one.
\<close>

lemma packet_step:
  assumes "tag = ''SEND'' \<or> tag = ''RETX''" and "chunks i \<noteq> []" and "0 < n" and "n < 10000"
    and "i < n"
    and "(arrived = [] \<and> st = idle current) \<or>
         (\<exists>imageId started latest name.
            st = receiving current n chunks imageId started latest name arrived \<and>
            (arrived \<noteq> [] \<longrightarrow> imageId = known))"
    and "i \<notin> set arrived"
    and "set (arrived @ [i]) = {0..<n} \<longrightarrow>
           isBase64Format (paddingCorrected n chunks) \<and>
           atob (paddingCorrected n chunks) = Some bytes \<and> 2 \<le> length bytes \<and>
           gz bytes = Inflated picture"
    and "length arrived + 1 = n \<longleftrightarrow> set (arrived @ [i]) = {0..<n}"
  shows "\<exists>imageId started latest name evs.
           processImagePacket gz now st (imagePacket tag (chunks i) n i) =
             (receiving current n chunks imageId started latest name (arrived @ [i]), evs) \<and>
           (arrived \<noteq> [] \<longrightarrow> imageId = known) \<and>
           promises evs = (if length arrived + 1 = n then [(imageId, bytes)] else []) \<and>
           filter isDownload evs = []"
proof -
  have store: "\<exists>evs. storeChunk gz now (receiving current n chunks imageId started latest name arrived)
           imageId n i (chunks i) =
         (receiving current n chunks imageId started now name (arrived @ [i]), evs) \<and>
         promises evs = (if length arrived + 1 = n then [(imageId, bytes)] else []) \<and>
         filter isDownload evs = []" for imageId started latest name
  proof (cases "length arrived + 1 = n")
    case True
    then have s: "set (arrived @ [i]) = {0..<n}" using assms(9) by blast
    with assms(8) have b: "isBase64Format (paddingCorrected n chunks)"
      "atob (paddingCorrected n chunks) = Some bytes" "2 \<le> length bytes"
      "gz bytes = Inflated picture" by blast+
    from storeChunk_receiving_last [where chunks = chunks and i = i and arrived = arrived
        and n = n and gz = gz and bytes = bytes and picture = picture,
        OF assms(7) True s b]
    show ?thesis using True by simp
  next
    case False
    from storeChunk_receiving_more [where chunks = chunks and i = i and arrived = arrived
        and n = n, OF assms(7) False]
    show ?thesis using False by simp
  qed
  from assms(6) show ?thesis
  proof (elim disjE exE conjE)
    assume e: "arrived = []" and st: "st = idle current"
    from packet_on_idle [where tag = tag and chunkData = "chunks i" and n = n and i = i
        and chunks = chunks and gz = gz and now = now and current = current, OF assms(1-5)]
    obtain imageId name where
      p: "processImagePacket gz now (idle current) (imagePacket tag (chunks i) n i) =
         (fst (storeChunk gz now (receiving current n chunks imageId now now name [])
                 imageId n i (chunks i)),
          ImageLog Info (StartingReception imageId n) #
          snd (storeChunk gz now (receiving current n chunks imageId now now name [])
                 imageId n i (chunks i)))"
      by blast
    from store [of imageId now now name] e obtain evs where
      s: "storeChunk gz now (receiving current n chunks imageId now now name [])
           imageId n i (chunks i) =
         (receiving current n chunks imageId now now name ([] @ [i]), evs)"
      and pr: "promises evs = (if length arrived + 1 = n then [(imageId, bytes)] else [])"
      and d: "filter isDownload evs = []"
      by auto
    have "processImagePacket gz now st (imagePacket tag (chunks i) n i) =
             (receiving current n chunks imageId now now name (arrived @ [i]),
              ImageLog Info (StartingReception imageId n) # evs)"
      unfolding st p s e by simp
    moreover have "promises (ImageLog Info (StartingReception imageId n) # evs) =
        (if length arrived + 1 = n then [(imageId, bytes)] else [])"
      using pr by simp
    moreover have "filter isDownload (ImageLog Info (StartingReception imageId n) # evs) = []"
      using d by simp
    ultimately show ?thesis using e by blast
  next
    fix imageId started latest name
    assume st: "st = receiving current n chunks imageId started latest name arrived"
      and k: "arrived \<noteq> [] \<longrightarrow> imageId = known"
    from store [of imageId started latest name] obtain evs where
      s: "storeChunk gz now (receiving current n chunks imageId started latest name arrived)
           imageId n i (chunks i) =
         (receiving current n chunks imageId started now name (arrived @ [i]), evs)"
      and pr: "promises evs = (if length arrived + 1 = n then [(imageId, bytes)] else [])"
      and d: "filter isDownload evs = []"
      by blast
    have "processImagePacket gz now st (imagePacket tag (chunks i) n i) =
             (receiving current n chunks imageId started now name (arrived @ [i]), evs)"
      unfolding st
      using packet_on_receiving [where tag = tag and chunkData = "chunks i" and n = n and i = i,
          OF assms(1-5)] s
      by simp
    with pr d k show ?thesis by blast
  qed
qed

lemma distinct_upt_length:
  assumes "distinct xs" and "set xs = {0..<n}"
  shows "length xs = n"
  using assms by (metis card_atLeastLessThan diff_zero distinct_card)

lemma runTask_Packet:
  "runTask gz (st, pending) (Packet now packetStr) =
     ((fst (processImagePacket gz now st packetStr),
       pending @ promises (snd (processImagePacket gz now st packetStr))),
      snd (processImagePacket gz now st packetStr))"
  by (simp add: runTask_def split_beta)

lemma run_to_last_chunk:
  assumes "0 < n" and "n < 10000"
    and "\<forall>i < n. chunks i \<noteq> [] \<and> (tag i = ''SEND'' \<or> tag i = ''RETX'')"
    and "isBase64Format (paddingCorrected n chunks)"
    and "atob (paddingCorrected n chunks) = Some bytes"
    and "2 \<le> length bytes"
    and "gz bytes = Inflated picture"
  shows "(arrived = [] \<and> st = idle current) \<or>
         (\<exists>imageId started latest name.
            st = receiving current n chunks imageId started latest name arrived \<and>
            (arrived \<noteq> [] \<longrightarrow> imageId = known)) \<Longrightarrow>
         distinct (arrived @ rest) \<Longrightarrow> set (arrived @ rest) = {0..<n} \<Longrightarrow> rest \<noteq> [] \<Longrightarrow>
         length stamps = length rest \<Longrightarrow>
         \<exists>imageId started latest name evs.
           runTasks gz (st, [])
             (map (\<lambda>(now, i). Packet now (imagePacket (tag i) (chunks i) n i)) (zip stamps rest)) =
             ((receiving current n chunks imageId started latest name (arrived @ rest),
               [(imageId, bytes)]), evs) \<and>
           filter isDownload evs = []"
proof (induction rest arbitrary: arrived st stamps known)
  case Nil
  then show ?case by simp
next
  case (Cons i rest)
  let ?pkt = "\<lambda>i. imagePacket (tag i) (chunks i) n i"
  let ?tasks = "\<lambda>ts is. map (\<lambda>(now, i). Packet now (?pkt i)) (zip ts is)"
  from Cons.prems(5) obtain t ts where stamps: "stamps = t # ts" and lts: "length ts = length rest"
    by (cases stamps) auto
  have i: "i < n" using Cons.prems(3) by auto
  have ok: "tag i = ''SEND'' \<or> tag i = ''RETX''" "chunks i \<noteq> []" using assms(3) i by auto
  have fresh: "i \<notin> set arrived" using Cons.prems(2) by auto
  have len: "length (arrived @ i # rest) = n"
    using Cons.prems(2,3) by (rule distinct_upt_length)
  have d1: "distinct (arrived @ [i])" using Cons.prems(2) by simp
  have last_iff: "length arrived + 1 = n \<longleftrightarrow> set (arrived @ [i]) = {0..<n}"
  proof
    assume l: "length arrived + 1 = n"
    have "length (arrived @ i # rest) = length arrived + 1 + length rest" by simp
    with len l have "length rest = 0" by linarith
    then have "rest = []" by simp
    then show "set (arrived @ [i]) = {0..<n}" using Cons.prems(3) by simp
  next
    assume "set (arrived @ [i]) = {0..<n}"
    with d1 have "length (arrived @ [i]) = n" by (rule distinct_upt_length)
    then show "length arrived + 1 = n" by simp
  qed
  have b: "set (arrived @ [i]) = {0..<n} \<longrightarrow>
           isBase64Format (paddingCorrected n chunks) \<and>
           atob (paddingCorrected n chunks) = Some bytes \<and> 2 \<le> length bytes \<and>
           gz bytes = Inflated picture"
    using assms(4-7) by blast
  from packet_step [where tag = "tag i" and chunks = chunks and i = i and n = n
      and arrived = arrived and st = st and current = current and known = known
      and gz = gz and bytes = bytes and picture = picture and now = t,
      OF ok assms(1,2) i Cons.prems(1) fresh b last_iff]
  obtain imageId started latest name evs where
    p: "processImagePacket gz t st (?pkt i) =
          (receiving current n chunks imageId started latest name (arrived @ [i]), evs)"
    and pr: "promises evs = (if length arrived + 1 = n then [(imageId, bytes)] else [])"
    and nd: "filter isDownload evs = []"
    by blast
  show ?case
  proof (cases "rest = []")
    case True
    then have l: "length arrived + 1 = n" using len by simp
    have "runTasks gz (st, []) (?tasks stamps (i # rest)) =
            ((receiving current n chunks imageId started latest name (arrived @ i # rest),
              [(imageId, bytes)]), evs)"
      using True l pr by (simp add: stamps runTask_Packet p)
    with nd show ?thesis by blast
  next
    case False
    then have l: "length arrived + 1 \<noteq> n" using len by (cases rest) auto
    have inv: "(arrived @ [i] = [] \<and>
                receiving current n chunks imageId started latest name (arrived @ [i]) = idle current) \<or>
         (\<exists>imageId' started' latest' name'.
            receiving current n chunks imageId started latest name (arrived @ [i]) =
              receiving current n chunks imageId' started' latest' name' (arrived @ [i]) \<and>
            (arrived @ [i] \<noteq> [] \<longrightarrow> imageId' = imageId))"
      by blast
    have d: "distinct ((arrived @ [i]) @ rest)" using Cons.prems(2) by simp
    have s: "set ((arrived @ [i]) @ rest) = {0..<n}" using Cons.prems(3) by simp
    from Cons.IH [OF inv d s False lts] obtain imageId' started' latest' name' evs' where
      r: "runTasks gz (receiving current n chunks imageId started latest name (arrived @ [i]), [])
             (?tasks ts rest) =
           ((receiving current n chunks imageId' started' latest' name' ((arrived @ [i]) @ rest),
             [(imageId', bytes)]), evs')"
      and nd': "filter isDownload evs' = []"
      by blast
    have "runTasks gz (st, []) (?tasks stamps (i # rest)) =
            ((receiving current n chunks imageId' started' latest' name' (arrived @ i # rest),
              [(imageId', bytes)]), evs @ evs')"
      using l pr r by (simp add: stamps runTask_Packet p)
    moreover have "filter isDownload (evs @ evs') = []" using nd nd' by simp
    ultimately show ?thesis by blast
  qed
qed

lemma settle_inflated:
  assumes "gz bytes = Inflated picture"
  shows "runTask gz (receiving current n chunks imageId started latest name arrived,
                     [(imageId, bytes)]) (Settled 0) =
           ((idle current, []),
            [ImageLog Response (ImageCompleted imageId),
             Download imageId bytes (Some picture),
             ImageLog Info (CleanupCompleted imageId)])"
  using assms by (simp add: runTask_def onDecompressed_def receiving_def idle_def)

text \<open>
  Claim C2, amended. Let the tables hold no reception, and let the \<open>n\<close> chunks of an
  image, each with a non-empty text, the tag \<^verbatim>\<open>SEND\<close> or \<^verbatim>\<open>RETX\<close> and the numbers
  \<open>n\<close> and its index, arrive once each in any order \<open>arrival\<close>. Let the payload, which is
  the chunks in index order with trailing \<^verbatim>\<open>=\<close> stripped from all but the last, pass
  the base64 format test and decode to at least two bytes, and let their decompression
  succeed. Then after the last packet the one reception holds all the chunks, exactly
  one decompression is pending, that of the decoded payload, and no download has been
  offered yet; and when the promise resolves, the completion is logged, exactly one
  download is offered, of the decoded payload and the decompressed image, and the
  reception and its chunk store are removed from the tables.
\<close>

theorem complete_image_reception:
  assumes "0 < n" and "n < 10000"
    and "\<forall>i < n. chunks i \<noteq> [] \<and> (tag i = ''SEND'' \<or> tag i = ''RETX'')"
    and "distinct arrival" and "set arrival = {0..<n}" and "length stamps = length arrival"
    and "isBase64Format (paddingCorrected n chunks)"
    and "atob (paddingCorrected n chunks) = Some bytes"
    and "2 \<le> length bytes"
    and "gz bytes = Inflated picture"
  shows "\<exists>imageId started latest name evs.
           runTasks gz (idle current, [])
             (map (\<lambda>(now, i). Packet now (imagePacket (tag i) (chunks i) n i)) (zip stamps arrival)) =
             ((receiving current n chunks imageId started latest name arrival,
               [(imageId, bytes)]), evs) \<and>
           filter isDownload evs = [] \<and>
           runTask gz (receiving current n chunks imageId started latest name arrival,
                       [(imageId, bytes)]) (Settled 0) =
             ((idle current, []),
              [ImageLog Response (ImageCompleted imageId),
               Download imageId bytes (Some picture),
               ImageLog Info (CleanupCompleted imageId)])"
proof -
  have inv: "(([]::nat list) = [] \<and> idle current = idle current) \<or>
         (\<exists>imageId started latest name.
            idle current = receiving current n chunks imageId started latest name [] \<and>
            (([]::nat list) \<noteq> [] \<longrightarrow> imageId = []))"
    by simp
  have ne: "arrival \<noteq> []" using assms(1,5) by auto
  have d: "distinct ([] @ arrival)" and s: "set ([] @ arrival) = {0..<n}"
    using assms(4,5) by simp_all
  from run_to_last_chunk [where n = n and chunks = chunks and tag = tag and bytes = bytes
      and gz = gz and picture = picture and arrived = "[]" and st = "idle current"
      and current = current and known = "[]" and rest = arrival and stamps = stamps,
      OF assms(1-3,7-10) inv d s ne assms(6)]
  obtain imageId started latest name evs where
    "runTasks gz (idle current, [])
             (map (\<lambda>(now, i). Packet now (imagePacket (tag i) (chunks i) n i)) (zip stamps arrival)) =
             ((receiving current n chunks imageId started latest name arrival,
               [(imageId, bytes)]), evs)"
    "filter isDownload evs = []"
    by auto
  then show ?thesis
    using settle_inflated [where gz = gz and bytes = bytes and picture = picture, OF assms(10)]
    by blast
qed

theorem complete_image_reception_witness:
  "\<exists>imageId started latest name evs.
     runTasks (\<lambda>b. Inflated ''jpg'') (idle None, [])
       [Packet 7 ''RETXAA00020001'', Packet 8 ''SENDH4sIAA==00020000''] =
       ((receiving None 2 (\<lambda>i. if i = 0 then ''H4sIAA=='' else ''AA'')
           imageId started latest name [1, 0],
         [(imageId, [CHR 0x1F, CHR 0x8B, CHR 0x08, CHR 0x00, CHR 0x00, CHR 0x00])]), evs) \<and>
     filter isDownload evs = [] \<and>
     runTask (\<lambda>b. Inflated ''jpg'')
       (receiving None 2 (\<lambda>i. if i = 0 then ''H4sIAA=='' else ''AA'')
          imageId started latest name [1, 0],
        [(imageId, [CHR 0x1F, CHR 0x8B, CHR 0x08, CHR 0x00, CHR 0x00, CHR 0x00])]) (Settled 0) =
       ((idle None, []),
        [ImageLog Response (ImageCompleted imageId),
         Download imageId [CHR 0x1F, CHR 0x8B, CHR 0x08, CHR 0x00, CHR 0x00, CHR 0x00]
           (Some ''jpg''),
         ImageLog Info (CleanupCompleted imageId)])"
proof -
  let ?chunks = "\<lambda>i::nat. if i = 0 then ''H4sIAA=='' else ''AA''"
  let ?tag = "\<lambda>i::nat. if i = 0 then ''SEND'' else ''RETX''"
  let ?bytes = "[CHR 0x1F, CHR 0x8B, CHR 0x08, CHR 0x00, CHR 0x00, CHR 0x00]"
  let ?gz = "\<lambda>b::bytes. Inflated ''jpg''"
  have h1: "(0::nat) < 2" and h2: "(2::nat) < 10000" by simp_all
  have h3: "\<forall>i < 2. ?chunks i \<noteq> [] \<and> (?tag i = ''SEND'' \<or> ?tag i = ''RETX'')" by simp
  have h4: "distinct [1, 0::nat]" by simp
  have h5: "set [1, 0::nat] = {0..<2}" by auto
  have h6: "length [7, 8::nat] = length [1, 0::nat]" by simp
  have pc: "paddingCorrected 2 ?chunks = ''H4sIAAAA''" by code_simp
  have h7: "isBase64Format (paddingCorrected 2 ?chunks)" unfolding pc by code_simp
  have h8: "atob (paddingCorrected 2 ?chunks) = Some ?bytes" unfolding pc by code_simp
  have h9: "2 \<le> length ?bytes" by simp
  have h10: "?gz ?bytes = Inflated ''jpg''" by simp
  have tasks: "map (\<lambda>(now, i). Packet now (imagePacket (?tag i) (?chunks i) 2 i))
                 (zip [7, 8] [1, 0]) =
               [Packet 7 ''RETXAA00020001'', Packet 8 ''SENDH4sIAA==00020000'']"
    by code_simp
  from complete_image_reception [where n = 2 and chunks = ?chunks and tag = ?tag
      and arrival = "[1, 0]" and stamps = "[7, 8]" and gz = ?gz and bytes = ?bytes
      and picture = "''jpg''" and current = None,
      OF h1 h2 h3 h4 h5 h6 h7 h8 h9 h10]
  show ?thesis unfolding tasks .
qed

text \<open>
  Claim C2 as stated does not hold for every valid base64 payload. The only chunk of a
  one-chunk image carries \<^verbatim>\<open>AA==\<close>, which passes the format test and decodes to a
  single byte. The completion logs the missing magic number and fails on the second
  byte; no decompression is started, no download is offered, and the reception stays
  in the tables, also after every pending promise has settled.
\<close>

theorem undecodable_payload_counterexample:
  "isBase64Format ''AA=='' \<and> atob ''AA=='' = Some [CHR 0x00] \<and>
   imageReceptions (fst (fst (runTasks (\<lambda>b. Inflated ''jpg'') (idle None, [])
      [Packet 7 ''SENDAA==00010000'', Settled 0]))) =
     [(''img_1'', \<lparr>totalChunks = 1, receivedChunks = [0], startTime = 7, lastPacketTime = 7,
                  retransmitAttempts = 0, filename = ''image_1.jpg.gz''\<rparr>)] \<and>
   snd (fst (runTasks (\<lambda>b. Inflated ''jpg'') (idle None, [])
      [Packet 7 ''SENDAA==00010000'', Settled 0])) = [] \<and>
   snd (runTasks (\<lambda>b. Inflated ''jpg'') (idle None, [])
      [Packet 7 ''SENDAA==00010000'', Settled 0]) =
     [ImageLog Info (StartingReception ''img_1'' 1),
      ImageLog Response (Progress ''img_1'' 1 1),
      ImageLog Warning NoGzipMagic,
      ImageLog Error (DecodeFailed ''img_1'')]"
  by code_simp
section \<open>Properties of the retransmission coordinator\<close>

lemma writtenLines_append: "writtenLines (xs @ ys) = writtenLines xs @ writtenLines ys"
  by (induction xs rule: writtenLines.induct) simp_all

lemma showNat_small: "n < 10 \<Longrightarrow> length (showNat n) = 1"
  by (subst showNat.simps) simp

lemma showNat_length:
  assumes "n < 10000"
  shows "length (showNat n) \<le> 4"
proof -
  have a: "length (showNat k) \<le> 2" if "k < 100" for k
    using that showNat_small [of "k div 10"] by (subst showNat.simps) auto
  have b: "length (showNat k) \<le> 3" if "k < 1000" for k
    using that a [of "k div 10"] by (subst showNat.simps) auto
  show ?thesis
    using assms b [of "n div 10"] by (subst showNat.simps) auto
qed

lemma join_bound:
  assumes "\<forall>x \<in> set chunk. x < 10000" and "chunk \<noteq> []"
  shows "length (joinWith '' '' (map showNat chunk)) + 1 \<le> 5 * length chunk"
  using assms
proof (induction chunk rule: induct_list012)
  case 1
  then show ?case by simp
next
  case (2 x)
  then have "length (showNat x) \<le> 4" by (simp add: showNat_length)
  then show ?case by simp
next
  case (3 x y zs)
  then have x: "length (showNat x) \<le> 4" by (simp add: showNat_length)
  from 3 have "length (joinWith '' '' (map showNat (y # zs))) + 1 \<le> 5 * length (y # zs)"
    by simp
  then show ?case using x by simp
qed

lemma command_length:
  "length (retransmitCommand name chunk) = 12 + length name + length (joinWith '' '' (map showNat chunk))"
  by (simp add: retransmitCommand_def)

lemma batchSize_pos: "0 < batchSize n"
  by (simp add: batchSize_def)

lemma batchSize_budget:
  assumes "n \<le> 43"
  shows "12 + n + 5 * batchSize n \<le> 60"
proof -
  define k where "k = (47 - int n) div 5"
  have "5 * k + (47 - int n) mod 5 = 47 - int n"
    unfolding k_def by (rule mult_div_mod_eq)
  moreover have "0 \<le> (47 - int n) mod 5" by simp
  ultimately have k: "5 * k \<le> 47 - int n" by linarith
  have b: "batchSize n = nat (max 1 k)"
    by (simp add: batchSize_def MAX_COMMAND_SIZE_def k_def)
  show ?thesis
  proof (cases "1 \<le> k")
    case True
    then have "int (batchSize n) = k" by (simp add: b)
    with k show ?thesis by linarith
  next
    case False
    then have "batchSize n = 1" by (simp add: b)
    then show ?thesis using assms by simp
  qed
qed

lemma command_fits:
  assumes "\<forall>x \<in> set chunk. x < 10000" and "chunk \<noteq> []" and "length chunk \<le> batchSize (length name)"
    and "length name \<le> 43"
  shows "length (retransmitCommand name chunk) \<le> 59"
proof -
  have "5 * length chunk \<le> 5 * batchSize (length name)" using assms(3) by simp
  with join_bound [OF assms(1,2)] batchSize_budget [OF assms(4)] show ?thesis
    by (simp add: command_length)
qed

lemma sendBatches_batches:
  "\<exists>batches.
     writtenLines (sendBatches name m missing i) =
       map (\<lambda>b. retransmitCommand name b @ [LF]) batches \<and>
     (\<forall>b \<in> set batches. b \<noteq> [] \<and> set b \<subseteq> set missing \<and>
        length (retransmitCommand name b @ [LF]) \<le> 60) \<and>
     ((\<forall>x \<in> set missing. x < 10000) \<and> length name \<le> 43 \<and> m = batchSize (length name) \<longrightarrow>
        concat batches = drop i missing \<and>
        (i < length missing \<and> length missing \<le> i + m \<longrightarrow> batches = [drop i missing]))"
proof (induction "length missing - i" arbitrary: i rule: less_induct)
  case less
  let ?line = "\<lambda>b. retransmitCommand name b @ [LF]"
  let ?C = "(\<forall>x \<in> set missing. x < 10000) \<and> length name \<le> 43 \<and> m = batchSize (length name)"
  let ?P = "\<lambda>i batches.
     writtenLines (sendBatches name m missing i) = map ?line batches \<and>
     (\<forall>b \<in> set batches. b \<noteq> [] \<and> set b \<subseteq> set missing \<and> length (?line b) \<le> 60) \<and>
     (?C \<longrightarrow> concat batches = drop i missing \<and>
        (i < length missing \<and> length missing \<le> i + m \<longrightarrow> batches = [drop i missing]))"
  show ?case
  proof (cases "m < 1 \<or> \<not> i < length missing")
    case True
    then have e: "sendBatches name m missing i = []"
      by (subst sendBatches.simps) simp
    have "?P i []"
      using True batchSize_pos [of "length name"] by (auto simp: e)
    then show ?thesis by blast
  next
    case False
    then have m: "1 \<le> m" and i: "i < length missing" by simp_all
    let ?chunk = "slice i (min (i + m) (length missing)) missing"
    let ?command = "retransmitCommand name ?chunk"
    have chunk: "?chunk = take m (drop i missing)"
      using i by (simp add: slice_def min_def) 
    have ne: "?chunk \<noteq> []" using i m by (simp add: chunk)
    have sub: "set ?chunk \<subseteq> set missing"
      unfolding chunk by (meson set_take_subset set_drop_subset subset_trans)
    have lc: "length ?chunk \<le> m" by (simp add: chunk)
    have fits: "?C \<Longrightarrow> length ?command \<le> 59"
      using ne sub lc by (intro command_fits) auto
    show ?thesis
    proof (cases "length ?command > MAX_COMMAND_SIZE - 1")
      case long: True
      then have notC: "\<not> ?C" using fits by (auto simp: MAX_COMMAND_SIZE_def)
      let ?safePacketCount = "max 1 (length ?chunk div 2)"
      let ?safeChunk = "slice 0 ?safePacketCount ?chunk"
      let ?safeCommand = "retransmitCommand name ?safeChunk"
      have sp: "1 \<le> ?safePacketCount" by simp
      show ?thesis
      proof (cases "length ?safeCommand > MAX_COMMAND_SIZE - 1")
        case True
        have e: "sendBatches name m missing i =
            RetransmitLog Warning (CommandTooLong (length ?command) ?safePacketCount) #
            RetransmitLog Error CannotFit # sendBatches name m missing (i + m)"
          using False long True
          by (subst sendBatches.simps)
            (simp add: Let_def)
        have "length missing - (i + m) < length missing - i" using i m by simp
        from less [OF this] obtain batches where b: "?P (i + m) batches" by blast
        from b have b1: "writtenLines (sendBatches name m missing (i + m)) = map ?line batches"
          and b2: "\<forall>b \<in> set batches. b \<noteq> [] \<and> set b \<subseteq> set missing \<and> length (?line b) \<le> 60"
          by blast+
        have w: "writtenLines (sendBatches name m missing i) =
            writtenLines (sendBatches name m missing (i + m))"
          by (simp add: e)
        have "?P i batches"
        proof (intro conjI impI)
          show "writtenLines (sendBatches name m missing i) = map ?line batches"
            unfolding w by (rule b1)
          show "\<forall>b \<in> set batches. b \<noteq> [] \<and> set b \<subseteq> set missing \<and> length (?line b) \<le> 60"
            by (rule b2)
        qed (use notC in blast)+
        then show ?thesis by blast
      next
        case safe: False
        have e: "sendBatches name m missing i =
            RetransmitLog Warning (CommandTooLong (length ?command) ?safePacketCount) #
            Write (?safeCommand @ [LF]) # sendBatches name m missing (i + ?safePacketCount)"
          using False long safe
          by (subst sendBatches.simps)
            (simp add: Let_def)
        have "length missing - (i + ?safePacketCount) < length missing - i" using i sp by simp
        from less [OF this] obtain batches where b: "?P (i + ?safePacketCount) batches" by blast
        have s1: "?safeChunk \<noteq> []" using ne sp by (cases "?chunk") (auto simp: slice_def)
        have s2: "set ?safeChunk \<subseteq> set missing"
          using sub set_take_subset [of "?safePacketCount" "?chunk"] by (auto simp: slice_def)
        have s3: "length (?line ?safeChunk) \<le> 60"
          using safe by (simp add: MAX_COMMAND_SIZE_def)
        have w: "writtenLines (sendBatches name m missing i) =
            (?safeCommand @ [LF]) # writtenLines (sendBatches name m missing (i + ?safePacketCount))"
          by (simp add: e)
        from b have b1: "writtenLines (sendBatches name m missing (i + ?safePacketCount)) =
            map ?line batches"
          and b2: "\<forall>b \<in> set batches. b \<noteq> [] \<and> set b \<subseteq> set missing \<and> length (?line b) \<le> 60"
          by blast+
        have q1: "writtenLines (sendBatches name m missing i) = map ?line (?safeChunk # batches)"
          unfolding w b1 by simp
        have q2: "\<forall>b \<in> set (?safeChunk # batches).
            b \<noteq> [] \<and> set b \<subseteq> set missing \<and> length (?line b) \<le> 60"
          using b2 s1 s2 s3 by simp
        have "?P i (?safeChunk # batches)"
        proof (intro conjI impI)
          show "writtenLines (sendBatches name m missing i) = map ?line (?safeChunk # batches)"
            by (rule q1)
          show "\<forall>b \<in> set (?safeChunk # batches).
              b \<noteq> [] \<and> set b \<subseteq> set missing \<and> length (?line b) \<le> 60"
            by (rule q2)
        qed (use notC in blast)+
        then show ?thesis by blast
      qed
    next
      case ok: False
      have e: "\<exists>ev. sendBatches name m missing i =
            ev # Write (?command @ [LF]) # sendBatches name m missing (i + m) \<and> \<not> isWrite ev"
        using False ok
        by (subst sendBatches.simps)
          (simp add: Let_def)
      then obtain ev where e: "sendBatches name m missing i =
            ev # Write (?command @ [LF]) # sendBatches name m missing (i + m)" and nw: "\<not> isWrite ev"
        by blast
      have wl: "writtenLines (ev # evs) = writtenLines evs" for evs
        using nw by (cases ev) simp_all
      have "length missing - (i + m) < length missing - i" using i m by simp
      from less [OF this] obtain batches where b: "?P (i + m) batches" by blast
      have c1: "length (?line ?chunk) \<le> 60"
        using ok by (simp add: MAX_COMMAND_SIZE_def)
      have c2: "?chunk @ drop (i + m) missing = drop i missing"
        unfolding chunk by (metis add.commute append_take_drop_id drop_drop)
      have c3: "length missing \<le> i + m \<Longrightarrow> batches = [] \<and> ?chunk = drop i missing"
      proof -
        assume a: "length missing \<le> i + m"
        then have "sendBatches name m missing (i + m) = []"
          by (subst sendBatches.simps) simp
        with b have "batches = []" by simp
        moreover have "?chunk = drop i missing" using a by (simp add: slice_def)
        ultimately show ?thesis by simp
      qed
      have w: "writtenLines (sendBatches name m missing i) =
            (?command @ [LF]) # writtenLines (sendBatches name m missing (i + m))"
        by (simp add: e wl)
      from b have b1: "writtenLines (sendBatches name m missing (i + m)) = map ?line batches"
        and b2: "\<forall>b \<in> set batches. b \<noteq> [] \<and> set b \<subseteq> set missing \<and> length (?line b) \<le> 60"
        and b3: "?C \<Longrightarrow> concat batches = drop (i + m) missing"
        by blast+
      have p1: "writtenLines (sendBatches name m missing i) = map ?line (?chunk # batches)"
        unfolding w b1 by simp
      have p2: "\<forall>b \<in> set (?chunk # batches).
            b \<noteq> [] \<and> set b \<subseteq> set missing \<and> length (?line b) \<le> 60"
        using b2 ne sub c1 by simp
      have p3: "?C \<Longrightarrow> concat (?chunk # batches) = drop i missing"
        using b3 c2 by simp
      have p4: "length missing \<le> i + m \<Longrightarrow> ?chunk # batches = [drop i missing]"
        using c3 by simp
      have "?P i (?chunk # batches)"
      proof (intro conjI impI)
        show "writtenLines (sendBatches name m missing i) = map ?line (?chunk # batches)"
          by (rule p1)
        show "\<forall>b \<in> set (?chunk # batches).
            b \<noteq> [] \<and> set b \<subseteq> set missing \<and> length (?line b) \<le> 60"
          by (rule p2)
        show "concat (?chunk # batches) = drop i missing" if "?C"
          using that by (rule p3)
        show "?chunk # batches = [drop i missing]"
          if "i < length missing \<and> length missing \<le> i + m"
          using that p4 by blast
      qed
      then show ?thesis by blast
    qed
  qed
qed

lemma requestBatches_lines:
  "writtenLines (requestBatches name missing attempt) =
     writtenLines (sendBatches name (batchSize (length name)) missing 0)"
proof -
  have m: "nat (max 1 ((int MAX_COMMAND_SIZE - int (length (''RETRANSMIT '' @ name @ '' '')) - 1) div 5)) =
      batchSize (length name)"
    by (simp add: batchSize_def)
  have p: "\<not> batchSize (length name) < 1"
    using batchSize_pos [of "length name"] by simp
  show ?thesis
    unfolding requestBatches_def Let_def m
    by (simp only: p if_False writtenLines.simps writtenLines_append append_Nil2)
qed

lemma checkMissingPackets_found:
  assumes "map_of (imageReceptions st) imageId = Some imageInfo"
  shows "fst (checkMissingPackets st imageId) =
           filter (\<lambda>i. i \<notin> set (receivedChunks imageInfo)) [0..<totalChunks imageInfo]"
    and "writtenLines (snd (checkMissingPackets st imageId)) = []"
  using assms by (simp_all add: checkMissingPackets_def Let_def)

lemma requestRetransmission_lines:
  assumes "map_of (imageReceptions st) imageId = Some imageInfo"
    and "retransmitAttempts imageInfo < MAX_RETRANSMIT_ATTEMPTS"
    and "filename imageInfo \<noteq> []"
    and "missing = filter (\<lambda>i. i \<notin> set (receivedChunks imageInfo)) [0..<totalChunks imageInfo]"
    and "missing \<noteq> []"
  shows "writtenLines (snd (requestRetransmission True st imageId None)) =
           writtenLines (sendBatches (filename imageInfo) (batchSize (length (filename imageInfo)))
             missing 0)"
proof -
  have f: "fst (checkMissingPackets st imageId) = missing"
    using checkMissingPackets_found(1) [OF assms(1)] assms(4) by simp
  have n: "length missing \<noteq> 0" using assms(5) by simp
  have a: "\<not> retransmitAttempts imageInfo + 1 > MAX_RETRANSMIT_ATTEMPTS"
    using assms(2) by simp
  have o: "orElse (Some (filename imageInfo)) x = filename imageInfo" for x
    using assms(3) by (simp add: orElse_def)
  have "snd (requestRetransmission True st imageId None) =
      snd (checkMissingPackets st imageId) @
      requestBatches (filename imageInfo) missing (retransmitAttempts imageInfo + 1)"
    using n a by (simp add: requestRetransmission_def Let_def f assms(1) o)
  then show ?thesis
    by (simp add: writtenLines_append checkMissingPackets_found(2) [OF assms(1)]
        requestBatches_lines)
qed

text \<open>
  Claim C4, amended. When \<^verbatim>\<open>requestRetransmission\<close> runs with a writer, for a
  reception with a non-empty file name, fewer than three earlier attempts and a
  non-empty set of missing indices, the lines it writes are
  \<^verbatim>\<open>RETRANSMIT <filename> <idx> <idx> ...\<close> followed by a newline, each for a
  non-empty batch of missing indices, with the file name stored in the reception, and
  each at most 60 characters long, newline included. If the stored file name has at
  most 43 characters and the reception has at most 10000 chunks, the batches taken
  together are exactly the missing indices in ascending order; and if the missing
  indices are no more than the batch size computed from the file name, they go out in
  one command (for the indices 2 and 7: whenever the stored name has at most 37
  characters). A file name of more than 43 characters can leave indices unrequested.
\<close>

theorem retransmission_commands:
  assumes "map_of (imageReceptions st) imageId = Some imageInfo"
    and "retransmitAttempts imageInfo < MAX_RETRANSMIT_ATTEMPTS"
    and "filename imageInfo \<noteq> []"
    and "missing = filter (\<lambda>i. i \<notin> set (receivedChunks imageInfo)) [0..<totalChunks imageInfo]"
    and "missing \<noteq> []"
  shows "\<exists>batches.
     writtenLines (snd (requestRetransmission True st imageId None)) =
       map (\<lambda>b. retransmitCommand (filename imageInfo) b @ [LF]) batches \<and>
     (\<forall>b \<in> set batches. b \<noteq> [] \<and> set b \<subseteq> set missing \<and>
        length (retransmitCommand (filename imageInfo) b @ [LF]) \<le> 60) \<and>
     (length (filename imageInfo) \<le> 43 \<and> totalChunks imageInfo \<le> 10000 \<longrightarrow>
        concat batches = missing \<and>
        (length missing \<le> batchSize (length (filename imageInfo)) \<longrightarrow> batches = [missing]))"
proof -
  let ?name = "filename imageInfo"
  let ?m = "batchSize (length ?name)"
  from sendBatches_batches [of ?name ?m missing 0] obtain batches where
    b1: "writtenLines (sendBatches ?name ?m missing 0) =
           map (\<lambda>b. retransmitCommand ?name b @ [LF]) batches"
    and b2: "\<forall>b \<in> set batches. b \<noteq> [] \<and> set b \<subseteq> set missing \<and>
               length (retransmitCommand ?name b @ [LF]) \<le> 60"
    and b3: "(\<forall>x \<in> set missing. x < 10000) \<and> length ?name \<le> 43 \<and> ?m = ?m \<longrightarrow>
        concat batches = drop 0 missing \<and>
        (0 < length missing \<and> length missing \<le> 0 + ?m \<longrightarrow> batches = [drop 0 missing])"
    by blast
  have small: "\<forall>x \<in> set missing. x < 10000" if "totalChunks imageInfo \<le> 10000"
    using that by (auto simp: assms(4))
  have pos: "0 < length missing" using assms(5) by simp
  have c: "concat batches = missing \<and> (length missing \<le> ?m \<longrightarrow> batches = [missing])"
    if "length ?name \<le> 43 \<and> totalChunks imageInfo \<le> 10000"
    using b3 small that pos by simp
  show ?thesis
  proof (intro exI conjI impI)
    show "writtenLines (snd (requestRetransmission True st imageId None)) =
       map (\<lambda>b. retransmitCommand ?name b @ [LF]) batches"
      unfolding requestRetransmission_lines [OF assms] by (rule b1)
    show "\<forall>b \<in> set batches. b \<noteq> [] \<and> set b \<subseteq> set missing \<and>
        length (retransmitCommand ?name b @ [LF]) \<le> 60"
      by (rule b2)
    show "concat batches = missing" if "length ?name \<le> 43 \<and> totalChunks imageInfo \<le> 10000"
      using c [OF that] by simp
    show "batches = [missing]" if "length ?name \<le> 43 \<and> totalChunks imageInfo \<le> 10000"
      and "length missing \<le> ?m"
      using c [OF that(1)] that(2) by simp
  qed
qed

theorem retransmission_commands_witness:
  "writtenLines (snd (requestRetransmission True
     \<lparr>imageReceptions =
        [(''img_10'', \<lparr>totalChunks = 10, receivedChunks = [0, 1, 3, 4, 5, 6, 8, 9], startTime = 7,
                       lastPacketTime = 7, retransmitAttempts = 0,
                       filename = ''img.jpg.chunked''\<rparr>)],
      imagePacketBuffer = [], currentImageFilename = Some ''img.jpg.chunked''\<rparr>
     ''img_10'' None)) =
   [''RETRANSMIT img.jpg.chunked 2 7'' @ [LF]]"
proof -
  let ?info = "\<lparr>totalChunks = 10, receivedChunks = [0, 1, 3, 4, 5, 6, 8, 9], startTime = 7,
                 lastPacketTime = 7, retransmitAttempts = 0, filename = ''img.jpg.chunked''\<rparr>"
  let ?st = "\<lparr>imageReceptions = [(''img_10'', ?info)],
      imagePacketBuffer = [], currentImageFilename = Some ''img.jpg.chunked''\<rparr>"
  have 1: "map_of (imageReceptions ?st) ''img_10'' = Some ?info" by simp
  have 2: "retransmitAttempts ?info < MAX_RETRANSMIT_ATTEMPTS"
    by (simp add: MAX_RETRANSMIT_ATTEMPTS_def)
  have 3: "filename ?info \<noteq> []" by simp
  have u: "filter (\<lambda>i. i \<notin> set [0, 1, 3, 4, 5, 6, 8, 9]) [0..<10] = [2, 7::nat]"
    by code_simp
  have 4: "[2, 7] = filter (\<lambda>i. i \<notin> set (receivedChunks ?info)) [0..<totalChunks ?info]"
    using u by simp
  have 5: "[2, 7::nat] \<noteq> []" by simp
  have c1: "length (filename ?info) \<le> 43 \<and> totalChunks ?info \<le> 10000" by simp
  have c2: "length [2, 7::nat] \<le> batchSize (length (filename ?info))"
    by (simp add: batchSize_def MAX_COMMAND_SIZE_def)
  have cmd: "retransmitCommand ''img.jpg.chunked'' [2, 7] = ''RETRANSMIT img.jpg.chunked 2 7''"
    by code_simp
  from retransmission_commands [OF 1 2 3 4 5] obtain batches where
    w: "writtenLines (snd (requestRetransmission True ?st ''img_10'' None)) =
       map (\<lambda>b. retransmitCommand (filename ?info) b @ [LF]) batches"
    and c: "length (filename ?info) \<le> 43 \<and> totalChunks ?info \<le> 10000 \<longrightarrow>
        concat batches = [2, 7] \<and>
        (length [2, 7::nat] \<le> batchSize (length (filename ?info)) \<longrightarrow> batches = [[2, 7]])"
    by blast
  from c c1 c2 have "batches = [[2, 7]]" by blast
  with w show ?thesis by (simp add: cmd)
qed

text \<open>
  Claim C4 fails as stated. After \<^verbatim>\<open>SEND_IMAGE images/capture_2024_01_01_120000.jpg.gz\<close>
  the registered name has 47 characters; with chunks 0 and 2 of 3 received, index 1 is
  missing, the command for it would have 60 characters without the newline, the source
  logs that it cannot fit the command and writes nothing: the missing index is never
  requested.
\<close>

theorem long_filename_counterexample:
  "fst (checkMissingPackets
     (fst (processImagePackets (\<lambda>b. GunzipRejects)
        (fst (setCurrentImageFilename noImages ''images/capture_2024_01_01_120000.jpg.gz''))
        [(7, ''SENDAAAA00030000''), (8, ''SENDAAAA00030002'')]))
     ''img_3'') = [1] \<and>
   writtenLines (snd (requestRetransmission True
     (fst (processImagePackets (\<lambda>b. GunzipRejects)
        (fst (setCurrentImageFilename noImages ''images/capture_2024_01_01_120000.jpg.gz''))
        [(7, ''SENDAAAA00030000''), (8, ''SENDAAAA00030002'')]))
     ''img_3'' None)) = []"
  by code_simp

lemma reception_default_name: "imageReceptions (fst (processImagePacket (\<lambda>b. GunzipRejects) 7 noImages ''SENDAAAA00050003'')) =
   [(''img_5_7'', \<lparr>totalChunks = 5, receivedChunks = [3], startTime = 7, lastPacketTime = 7,
        retransmitAttempts = 0, filename = ''image_5.jpg.gz''\<rparr>)]"
  by code_simp

lemma upt_five: "[0..<5] = [0, 1, 2, 3, 4]"
  by code_simp

lemma timeout_default_name: "snd (imageTimeoutCheck 40000
          (fst (processImagePacket (\<lambda>b. GunzipRejects) 7 noImages ''SENDAAAA00050003''))) =
     [RetransmitLog Warning (MissingPackets 4 ''img_5_7'' [0, 1, 2, 4] False),
      RetransmitLog Warning (ImageTimeout ''img_5_7'' 1 5 4),
      RetransmitLog Info (TimeoutMissing [0, 1, 2, 4] None),
      RetransmitLog Info (ManualRetransmit ''image_5.jpg.gz'' [0, 1, 2, 4])]"
  by (simp add: imageTimeoutCheck_def reception_default_name checkMissingPackets_def IMAGE_TIMEOUT_def upt_five slice_def
      orElse_def Let_def)

text \<open>
  Claim C10: the registered name carries the suffix, the default name does not. With no
  name registered, a reception of 5 chunks gets the file name \<^verbatim>\<open>image_5.jpg.gz\<close>,
  and both the automatic retransmission command and the manual command suggested by the
  timeout checker name that file, without \<^verbatim>\<open>.chunked\<close>; the fallback that has the
  suffix is only taken when the reception has no file name at all. After
  \<^verbatim>\<open>setCurrentImageFilename\<close> with \<^verbatim>\<open>photo.jpg\<close> the reception is named
  \<^verbatim>\<open>photo.jpg.chunked\<close>.
\<close>

theorem default_filename_lacks_chunked:
  "map (filename \<circ> snd)
     (imageReceptions (fst (processImagePacket (\<lambda>b. GunzipRejects) 7 noImages ''SENDAAAA00050003'')))
     = [''image_5.jpg.gz''] \<and>
   snd (requestRetransmission True
          (fst (processImagePacket (\<lambda>b. GunzipRejects) 7 noImages ''SENDAAAA00050003''))
          ''img_5_7'' None) =
     [RetransmitLog Warning (MissingPackets 4 ''img_5_7'' [0, 1, 2, 4] False),
      RetransmitLog Info (RequestingPackets 4 6),
      RetransmitLog Command (RetransmitBatch None 4 33),
      Write (''RETRANSMIT image_5.jpg.gz 0 1 2 4'' @ [LF]),
      RetransmitLog Info (RequestComplete 1)] \<and>
   snd (imageTimeoutCheck 40000
          (fst (processImagePacket (\<lambda>b. GunzipRejects) 7 noImages ''SENDAAAA00050003''))) =
     [RetransmitLog Warning (MissingPackets 4 ''img_5_7'' [0, 1, 2, 4] False),
      RetransmitLog Warning (ImageTimeout ''img_5_7'' 1 5 4),
      RetransmitLog Info (TimeoutMissing [0, 1, 2, 4] None),
      RetransmitLog Info (ManualRetransmit ''image_5.jpg.gz'' [0, 1, 2, 4])] \<and>
   map (filename \<circ> snd)
     (imageReceptions (fst (processImagePacket (\<lambda>b. GunzipRejects) 7
        (fst (setCurrentImageFilename noImages ''photo.jpg'')) ''SENDAAAA00050003'')))
     = [''photo.jpg.chunked'']"
proof -
  have a: "map (filename \<circ> snd)
     (imageReceptions (fst (processImagePacket (\<lambda>b. GunzipRejects) 7 noImages ''SENDAAAA00050003'')))
     = [''image_5.jpg.gz'']"
    by code_simp
  have b: "snd (requestRetransmission True
          (fst (processImagePacket (\<lambda>b. GunzipRejects) 7 noImages ''SENDAAAA00050003''))
          ''img_5_7'' None) =
     [RetransmitLog Warning (MissingPackets 4 ''img_5_7'' [0, 1, 2, 4] False),
      RetransmitLog Info (RequestingPackets 4 6),
      RetransmitLog Command (RetransmitBatch None 4 33),
      Write (''RETRANSMIT image_5.jpg.gz 0 1 2 4'' @ [LF]),
      RetransmitLog Info (RequestComplete 1)]"
    by code_simp
  have d: "map (filename \<circ> snd)
     (imageReceptions (fst (processImagePacket (\<lambda>b. GunzipRejects) 7
        (fst (setCurrentImageFilename noImages ''photo.jpg'')) ''SENDAAAA00050003'')))
     = [''photo.jpg.chunked'']"
    by code_simp
  show ?thesis using a b timeout_default_name d by blast
qed

end
